theory Spec2Isabelle
  imports Complex_Main "HOL-Library.Word"
begin

section \<open>Numeric model\<close>

text \<open>
  The Python sources compute with NumPy. The embedding reads them as follows.
  \<^item> A Python \<open>float\<close> / \<open>np.float64\<close> is a \<open>real\<close> and a \<open>complex\<close> /
    \<open>np.complex128\<close> is a \<open>complex\<close>: the rounding of a result to 53 significant bits is
    not represented. The range of the floats is represented where the kinetic matrix
    and the renormalisation are computed, by \<open>fl\<close> below; the transforms, the potential
    and the plane wave are computed in exact arithmetic.
  \<^item> NumPy float division does not raise on a zero divisor: it yields an infinity or a
    NaN. Such a value is \<open>NonFinite\<close> in the type \<open>'a fp\<close>, and it absorbs every later
    operation, as infinities and NaNs of IEEE arithmetic stay non-finite under
    \<open>+\<close> and under \<open>*\<close> with a number of modulus one.
  \<^item> Python's own \<open>int / int\<close> raises \<open>ZeroDivisionError\<close> on a zero divisor.
  \<^item> A Python \<open>int\<close> is an \<open>int\<close>; an entry of an \<open>NDArray[np.int32]\<close> is a
    \<open>32 word\<close> read with \<open>sint\<close>, and array arithmetic on it wraps modulo \<open>2 ^ 32\<close>.
  \<^item> Every exception the sources can raise is a value \<open>Inl e\<close> of \<open>error + 'a\<close>.
\<close>

datatype error = ValueError | ZeroDivisionError | IndexError | StopIteration | OverflowError

datatype 'a fp = Finite 'a | NonFinite

type_synonym int32 = "32 word"

text \<open>
  The range of \<open>np.float64\<close>: the largest finite float and the smallest positive normal
  float. Below the normal range the floats are the multiples of \<open>2\<^sup>-\<^sup>1\<^sup>0\<^sup>7\<^sup>4\<close>, the
  subnormal numbers.
\<close>

definition float_max :: real where
  "float_max = (2 ^ 53 - 1) * 2 ^ 971"

definition float_min_normal :: real where
  "float_min_normal = 1 / 2 ^ 1022"

text \<open>
  A magnitude from which squares, and quotients by a norm whose square is a finite
  float, stay in the range of the normal floats.
\<close>

definition float_safe_min :: real where
  "float_safe_min = 1 / 2 ^ 510"

text \<open>Rounding to the nearest integer, a tie going to the even one.\<close>

definition round_even :: "real \<Rightarrow> int" where
  "round_even y =
     (let f = \<lfloor>y\<rfloor>
      in if y - of_int f < 1 / 2 then f
         else if 1 / 2 < y - of_int f then f + 1
         else if even f then f else f + 1)"

text \<open>
  The float that an arithmetic operation returns for the exact result \<open>x\<close>: an infinity
  when \<open>x\<close> is beyond the largest float, the nearest subnormal number (possibly \<open>0\<close>) when
  \<open>x\<close> is below the normal range, and \<open>x\<close> itself in the normal range.
\<close>

definition fl :: "real \<Rightarrow> real fp" where
  "fl x =
     (if float_max < \<bar>x\<bar> then NonFinite
      else if \<bar>x\<bar> < float_min_normal
      then Finite (of_int (round_even (x * 2 ^ 1074)) / 2 ^ 1074)
      else Finite x)"

text \<open>Python's \<open>range(a, b)\<close>: the integers \<open>a, a + 1, ..., b - 1\<close>, empty when \<open>b \<le> a\<close>.\<close>

definition py_range :: "int \<Rightarrow> int \<Rightarrow> int list" where
  "py_range a b = map (\<lambda>n. a + int n) [0..<nat (b - a)]"

text \<open>
  \<open>np.zeros(n, dtype=complex)\<close>: an array of \<open>n\<close> zeros; a negative \<open>n\<close> raises
  \<open>ValueError\<close> (negative dimensions are not allowed).
\<close>

definition np_zeros :: "int \<Rightarrow> error + complex list" where
  "np_zeros n = (if n < 0 then Inl ValueError else Inr (replicate (nat n) 0))"

section \<open>Transform engine (\<open>utils/fourier_methods/fourier.py\<close>)\<close>

text \<open>
  The inner loop of \<open>dft\<close>:
  \<^verbatim>\<open>
  sum_result = 0
  for n in range(len(signal)):
      sum_result += signal[n] * np.exp(-1j * 2 * np.pi * k * n / len(signal))
  \<close>
  The division inside the exponent is only evaluated when the signal has an element,
  so its divisor is never zero.
\<close>

definition dft_sum :: "complex list \<Rightarrow> int \<Rightarrow> complex" where
  "dft_sum signal k =
     foldl (\<lambda>sum_result n.
              sum_result + signal ! n *
                exp (- \<i> * 2 * of_real pi * of_int k * of_nat n / of_nat (length signal)))
       0 [0..<length signal]"

text \<open>
  The outer loop of \<open>dft\<close> over \<open>range(k_min, k_max)\<close>, threading the result array:
  \<^verbatim>\<open>
  truncated_dft_result[k - k_min] = sum_result / len(signal)
  \<close>
  For an empty signal \<open>sum_result\<close> is still the Python integer \<open>0\<close> and \<open>len(signal)\<close>
  is \<open>0\<close>, so the division raises \<open>ZeroDivisionError\<close>. The index \<open>k - k_min\<close> is within
  the array for every \<open>k\<close> of the range.
\<close>

fun dft_loop :: "complex list \<Rightarrow> int \<Rightarrow> int list \<Rightarrow> complex list \<Rightarrow> error + complex list" where
  "dft_loop signal k_min [] truncated_dft_result = Inr truncated_dft_result"
| "dft_loop signal k_min (k # ks) truncated_dft_result =
     (if length signal = 0 then Inl ZeroDivisionError
      else dft_loop signal k_min ks
             (truncated_dft_result[nat (k - k_min) :=
                dft_sum signal k / of_nat (length signal)]))"

definition dft :: "complex list \<Rightarrow> int \<Rightarrow> int \<Rightarrow> error + complex list" where
  "dft signal k_min k_max =
     (case np_zeros (k_max - k_min) of
        Inl e \<Rightarrow> Inl e
      | Inr truncated_dft_result \<Rightarrow>
          dft_loop signal k_min (py_range k_min k_max) truncated_dft_result)"

text \<open>
  Reading \<open>a[i]\<close> for an integer \<open>i\<close>: a negative index counts from the end, an index
  outside the array raises \<open>IndexError\<close>.
\<close>

definition getitem :: "'a list \<Rightarrow> int \<Rightarrow> error + 'a" where
  "getitem a i =
     (if 0 \<le> i \<and> i < int (length a) then Inr (a ! nat i)
      else if i < 0 \<and> 0 \<le> int (length a) + i then Inr (a ! nat (int (length a) + i))
      else Inl IndexError)"

text \<open>
  The inner loop of \<open>idft\<close> for one sample \<open>n\<close>:
  \<^verbatim>\<open>
  sum_result = 0
  for k in range(k_min, k_max):
      sum_result += truncated_dft_result[k - k_min] * np.exp(1j * 2 * np.pi * k * n / sig_len)
  \<close>
  It runs only for \<open>n\<close> in \<open>range(sig_len)\<close>, hence with \<open>sig_len > 0\<close>.
\<close>

fun idft_sum :: "complex list \<Rightarrow> int \<Rightarrow> int \<Rightarrow> int \<Rightarrow> int list \<Rightarrow> complex \<Rightarrow> error + complex" where
  "idft_sum truncated_dft_result sig_len k_min n [] sum_result = Inr sum_result"
| "idft_sum truncated_dft_result sig_len k_min n (k # ks) sum_result =
     (case getitem truncated_dft_result (k - k_min) of
        Inl e \<Rightarrow> Inl e
      | Inr c \<Rightarrow>
          idft_sum truncated_dft_result sig_len k_min n ks
            (sum_result + c * exp (\<i> * 2 * of_real pi * of_int k * of_int n / of_int sig_len)))"

fun idft_loop ::
  "complex list \<Rightarrow> int \<Rightarrow> int \<Rightarrow> int \<Rightarrow> int list \<Rightarrow> complex list \<Rightarrow> error + complex list" where
  "idft_loop truncated_dft_result sig_len k_min k_max [] reconstructed_signal =
     Inr reconstructed_signal"
| "idft_loop truncated_dft_result sig_len k_min k_max (n # ns) reconstructed_signal =
     (case idft_sum truncated_dft_result sig_len k_min n (py_range k_min k_max) 0 of
        Inl e \<Rightarrow> Inl e
      | Inr sum_result \<Rightarrow>
          idft_loop truncated_dft_result sig_len k_min k_max ns
            (reconstructed_signal[nat n := sum_result]))"

definition idft :: "complex list \<Rightarrow> int \<Rightarrow> int \<Rightarrow> int \<Rightarrow> error + complex list" where
  "idft truncated_dft_result sig_len k_min k_max =
     (case np_zeros sig_len of
        Inl e \<Rightarrow> Inl e
      | Inr reconstructed_signal \<Rightarrow>
          idft_loop truncated_dft_result sig_len k_min k_max (py_range 0 sig_len)
            reconstructed_signal)"

text \<open>
  A list comprehension \<open>[f(x) for x in xs]\<close> whose body may raise: the elements are
  computed in order and the first exception ends the comprehension.
\<close>

fun map_err :: "('a \<Rightarrow> error + 'b) \<Rightarrow> 'a list \<Rightarrow> error + 'b list" where
  "map_err f [] = Inr []"
| "map_err f (x # xs) =
     (case f x of
        Inl e \<Rightarrow> Inl e
      | Inr y \<Rightarrow> (case map_err f xs of Inl e \<Rightarrow> Inl e | Inr ys \<Rightarrow> Inr (y # ys)))"

text \<open>
  A two-dimensional array is the list of its rows, all of one length; \<open>np.array\<close> of a
  list of equally long one-dimensional arrays is that list. The empty list is the
  one-dimensional empty array \<open>np.array([])\<close>, of shape \<open>(0,)\<close>: it has no \<open>shape[1]\<close>,
  and it is its own transpose. Two-dimensional arrays with no row and a positive
  number of columns are not represented.
\<close>

definition shape1 :: "'a list list \<Rightarrow> error + nat" where
  "shape1 a = (case a of [] \<Rightarrow> Inl IndexError | r # _ \<Rightarrow> Inr (length r))"

text \<open>The column \<open>a[:, col]\<close>.\<close>

definition column :: "'a list list \<Rightarrow> nat \<Rightarrow> 'a list" where
  "column a col = map (\<lambda>row. row ! col) a"

text \<open>The transpose \<open>a.T\<close>.\<close>

definition np_T :: "'a list list \<Rightarrow> 'a list list" where
  "np_T a = (case a of [] \<Rightarrow> [] | r # _ \<Rightarrow> map (column a) [0..<length r])"

definition dft2 :: "complex list list \<Rightarrow> int \<Rightarrow> int \<Rightarrow> error + complex list list" where
  "dft2 signal_2d k_min k_max =
     (case map_err (\<lambda>row. dft row k_min k_max) signal_2d of
        Inl e \<Rightarrow> Inl e
      | Inr dft_rows \<Rightarrow>
          (case shape1 dft_rows of
             Inl e \<Rightarrow> Inl e
           | Inr ncol \<Rightarrow>
               (case map_err (\<lambda>col. dft (column dft_rows col) k_min k_max) [0..<ncol] of
                  Inl e \<Rightarrow> Inl e
                | Inr dft_columns \<Rightarrow> Inr (np_T dft_columns))))"

definition idft2 ::
  "complex list list \<Rightarrow> int \<times> int \<Rightarrow> int \<Rightarrow> int \<Rightarrow> error + complex list list" where
  "idft2 truncated_dft_2d original_shape k_min k_max =
     (case shape1 truncated_dft_2d of
        Inl e \<Rightarrow> Inl e
      | Inr ncol \<Rightarrow>
          (case map_err (\<lambda>col. idft (column truncated_dft_2d col) (fst original_shape) k_min k_max)
                  [0..<ncol] of
             Inl e \<Rightarrow> Inl e
           | Inr cols \<Rightarrow>
               (let idft_cols = np_T cols
                in map_err (\<lambda>row. idft (idft_cols ! row) (snd original_shape) k_min k_max)
                     [0..<length idft_cols])))"

subsection \<open>The separable transform as the specification words it\<close>

text \<open>
  The specification describes \<open>dft2\<close> as: apply the 1D transform to every row, then to
  every column of the intermediate result, and transpose the outcome back; and \<open>idft2\<close>
  as the mirror order, columns first and then rows. These two definitions follow those
  words, with the library's \<open>transpose\<close> for "every column" and "transposed back".
\<close>

definition dft2_separable :: "complex list list \<Rightarrow> int \<Rightarrow> int \<Rightarrow> error + complex list list" where
  "dft2_separable signal_2d k_min k_max =
     (case map_err (\<lambda>row. dft row k_min k_max) signal_2d of
        Inl e \<Rightarrow> Inl e
      | Inr by_rows \<Rightarrow>
          (case map_err (\<lambda>col. dft col k_min k_max) (transpose by_rows) of
             Inl e \<Rightarrow> Inl e
           | Inr by_cols \<Rightarrow> Inr (transpose by_cols)))"

definition idft2_separable ::
  "complex list list \<Rightarrow> int \<times> int \<Rightarrow> int \<Rightarrow> int \<Rightarrow> error + complex list list" where
  "idft2_separable truncated_dft_2d original_shape k_min k_max =
     (case map_err (\<lambda>col. idft col (fst original_shape) k_min k_max)
             (transpose truncated_dft_2d) of
        Inl e \<Rightarrow> Inl e
      | Inr by_cols \<Rightarrow>
          map_err (\<lambda>row. idft row (snd original_shape) k_min k_max) (transpose by_cols))"

subsection \<open>Roots of unity\<close>


section \<open>Hamiltonian assembler (\<open>operators/plane_wave.py\<close>)\<close>

text \<open>
  Float division as NumPy performs it on \<open>np.float64\<close>: a zero divisor gives an infinity
  or a NaN (with a warning), never an exception.
\<close>

definition fp_div :: "real \<Rightarrow> real \<Rightarrow> real fp" where
  "fp_div a b = (if b = 0 then NonFinite else Finite (a / b))"

text \<open>A float times a complex number of modulus one, and the sum of two complex values.\<close>

fun fp_scale :: "real fp \<Rightarrow> complex \<Rightarrow> complex fp" where
  "fp_scale (Finite a) z = Finite (of_real a * z)"
| "fp_scale NonFinite z = NonFinite"

fun fp_add :: "complex fp \<Rightarrow> complex fp \<Rightarrow> complex fp" where
  "fp_add (Finite a) (Finite b) = Finite (a + b)"
| "fp_add _ _ = NonFinite"

text \<open>
  \<open>np.dot\<close> of two one-dimensional \<open>int32\<close> arrays: the products and their sum wrap
  modulo \<open>2 ^ 32\<close>. It is only applied to a k-point and itself, so the lengths agree.
\<close>

definition np_dot_int32 :: "int32 list \<Rightarrow> int32 list \<Rightarrow> int32" where
  "np_dot_int32 a b = sum_list (map (\<lambda>(x, y). x * y) (zip a b))"

text \<open>\<open>np.diag\<close> of a list of \<open>n\<close> values: the \<open>n \<times> n\<close> matrix with them on the diagonal.\<close>

definition np_diag :: "real fp list \<Rightarrow> real fp list list" where
  "np_diag v =
     map (\<lambda>i. map (\<lambda>j. if i = j then v ! i else Finite 0) [0..<length v]) [0..<length v]"

text \<open>
  Python's \<open>x ** 2\<close> on a float: a result beyond the largest float raises
  \<open>OverflowError\<close>.
\<close>

definition py_float_pow2 :: "real \<Rightarrow> error + real" where
  "py_float_pow2 x = (case fl (x ^ 2) of NonFinite \<Rightarrow> Inl OverflowError | Finite y \<Rightarrow> Inr y)"

text \<open>
  The division \<open>a / b\<close> of an \<open>np.float64\<close> by a float. The divisor is \<open>2 * m\<close>, which is
  non-finite only as an infinity, and a finite number divided by an infinity is \<open>0\<close>.
\<close>

fun fp_truediv :: "real fp \<Rightarrow> real fp \<Rightarrow> real fp" where
  "fp_truediv (Finite a) (Finite b) = (if b = 0 then NonFinite else fl (a / b))"
| "fp_truediv (Finite a) NonFinite = Finite 0"
| "fp_truediv NonFinite b = NonFinite"

text \<open>
  \<^verbatim>\<open>
  return np.diag([(hbar**2 * np.dot(k, k) ** 2) / (2 * m) for k in k_points])
  \<close>
  \<open>hbar\<close> and \<open>m\<close> are Python floats, as the signature annotates them; an integer
  argument, for which the product with the \<open>np.int32\<close> would stay in \<open>int32\<close>, is outside
  this model. \<open>hbar**2\<close> is evaluated first, for every k-point.
  \<open>np.dot(k, k)\<close> is an \<open>np.int32\<close>. Its square is taken in \<open>int32\<close> as well, as NumPy 2
  does for \<open>np.int32 ** 2\<close> (older NumPy versions square it in \<open>int64\<close>, where the square of
  an \<open>int32\<close> always fits); the product with the float \<open>hbar**2\<close> converts it to a float.
\<close>

definition kenetic_entry :: "int32 list \<Rightarrow> real \<Rightarrow> real \<Rightarrow> error + real fp" where
  "kenetic_entry k hbar m =
     (case py_float_pow2 hbar of
        Inl e \<Rightarrow> Inl e
      | Inr h2 \<Rightarrow>
          Inr (fp_truediv (fl (h2 * real_of_int (sint (np_dot_int32 k k ^ 2)))) (fl (2 * m))))"

definition kenetic :: "int32 list list \<Rightarrow> real \<Rightarrow> real \<Rightarrow> error + real fp list list" where
  "kenetic k_points hbar m =
     (case map_err (\<lambda>k. kenetic_entry k hbar m) k_points of
        Inl e \<Rightarrow> Inl e
      | Inr v \<Rightarrow> Inr (np_diag v))"

text \<open>
  Elementwise \<open>a - b\<close> on one-dimensional \<open>int32\<close> arrays: wrapping subtraction, with
  NumPy's broadcasting of a length-one operand; other length mismatches raise
  \<open>ValueError\<close>.
\<close>

definition np_sub_int32 :: "int32 list \<Rightarrow> int32 list \<Rightarrow> error + int32 list" where
  "np_sub_int32 a b =
     (if length a = length b then Inr (map (\<lambda>(x, y). x - y) (zip a b))
      else if length a = 1 then Inr (map (\<lambda>y. a ! 0 - y) b)
      else if length b = 1 then Inr (map (\<lambda>x. x - b ! 0) a)
      else Inl ValueError)"

text \<open>
  \<open>np.linalg.norm\<close> of a one-dimensional integer array: the entries are converted to
  floats, then the Euclidean norm is taken.
\<close>

definition np_linalg_norm :: "int32 list \<Rightarrow> real" where
  "np_linalg_norm d = sqrt (sum_list (map (\<lambda>x. (real_of_int (sint x)) ^ 2) d))"

text \<open>
  \<open>np.dot\<close> of a one-dimensional \<open>int32\<close> array and a one-dimensional float array: the
  integers are converted to floats; arrays of different lengths raise \<open>ValueError\<close>.
\<close>

definition np_dot :: "int32 list \<Rightarrow> real list \<Rightarrow> error + real" where
  "np_dot d r =
     (if length d = length r
      then Inr (sum_list (map (\<lambda>(x, y). real_of_int (sint x) * y) (zip d r)))
      else Inl ValueError)"

text \<open>
  The loop of \<open>elec_nuc_potential_element\<close> over the nuclear positions, threading
  \<open>mat_element\<close>:
  \<^verbatim>\<open>
  for r in r_pos:
      if np.array_equal(k_bra, k_ket):
          mat_element = 0
      else:
          mat_element += (
              (4 * np.pi) / (cell_area * np.linalg.norm(k_bra - k_ket) ** 2)
          ) * np.exp(-1j * np.dot(k_bra - k_ket, r))
  \<close>
  \<open>np.array_equal\<close> is equality of shape and entries, here equality of lists.
\<close>

fun potential_loop ::
  "int32 list \<Rightarrow> int32 list \<Rightarrow> real \<Rightarrow> real list list \<Rightarrow> complex fp \<Rightarrow> error + complex fp" where
  "potential_loop k_bra k_ket cell_area [] mat_element = Inr mat_element"
| "potential_loop k_bra k_ket cell_area (r # rs) mat_element =
     (if k_bra = k_ket then potential_loop k_bra k_ket cell_area rs (Finite 0)
      else
        (case np_sub_int32 k_bra k_ket of
           Inl e \<Rightarrow> Inl e
         | Inr d \<Rightarrow>
             (case np_dot d r of
                Inl e \<Rightarrow> Inl e
              | Inr dr \<Rightarrow>
                  potential_loop k_bra k_ket cell_area rs
                    (fp_add mat_element
                       (fp_scale (fp_div (4 * pi) (cell_area * np_linalg_norm d ^ 2))
                          (exp (- \<i> * of_real dr)))))))"

type_synonym element_args = "nat \<times> nat \<times> int32 list \<times> int32 list \<times> real list list \<times> real"

fun elec_nuc_potential_element :: "element_args \<Rightarrow> error + nat \<times> nat \<times> complex fp" where
  "elec_nuc_potential_element (i, j, k_bra, k_ket, r_pos, cell_area) =
     (case potential_loop k_bra k_ket cell_area r_pos (Finite 0) of
        Inl e \<Rightarrow> Inl e
      | Inr mat_element \<Rightarrow> Inr (i, j, mat_element))"

text \<open>
  \<open>elec_nuc_potential\<close>: the argument list holds one tuple per ordered pair of k-points,
  \<open>pool.map\<close> returns the results in the order of the arguments and re-raises a worker's
  exception, and the results are stored by index:
  \<^verbatim>\<open>
  for i, j, mat_element in results:
      mat[i, j] = mat_element
  \<close>
  The indices come from \<open>enumerate(k_points)\<close>, so every store is within the matrix.
\<close>

definition args_list :: "int32 list list \<Rightarrow> real \<Rightarrow> real list list \<Rightarrow> element_args list" where
  "args_list k_points cell_area r_pos =
     concat (map (\<lambda>(i, k_bra).
                    map (\<lambda>(j, k_ket). (i, j, k_bra, k_ket, r_pos, cell_area))
                      (enumerate 0 k_points))
               (enumerate 0 k_points))"

fun store_results :: "(nat \<times> nat \<times> complex fp) list \<Rightarrow> complex fp list list \<Rightarrow> complex fp list list" where
  "store_results [] mat = mat"
| "store_results ((i, j, mat_element) # results) mat =
     store_results results (mat[i := (mat ! i)[j := mat_element]])"

definition elec_nuc_potential ::
  "int32 list list \<Rightarrow> real \<Rightarrow> real list list \<Rightarrow> error + complex fp list list" where
  "elec_nuc_potential k_points cell_area r_pos =
     (let mat = replicate (length k_points) (replicate (length k_points) (Finite 0))
      in case map_err elec_nuc_potential_element (args_list k_points cell_area r_pos) of
           Inl e \<Rightarrow> Inl e
         | Inr results \<Rightarrow> Inr (store_results results mat))"

text \<open>The exact integer dot product of a k-point with itself, for stating the formulas.\<close>

definition dot_int :: "int32 list \<Rightarrow> int" where
  "dot_int k = sum_list (map (\<lambda>x. sint x * sint x) k)"

section \<open>Plane-wave functional (\<open>wavefunctions/plane_wave.py\<close>)\<close>

text \<open>
  An \<open>ndarray\<close> of any dimension is its shape and its entries in row-major order, as
  NumPy stores it; a well-formed array has as many entries as the product of its shape.
\<close>

record 'a ndarray =
  shape :: "nat list"
  data :: "'a list"

definition wf_ndarray :: "'a ndarray \<Rightarrow> bool" where
  "wf_ndarray a = (length (data a) = prod_list (shape a))"

text \<open>
  \<open>np.tensordot(r, k, axes=([axis], [0]))\<close> for a one-dimensional integer \<open>k\<close>: the axis
  \<open>axis\<close> of \<open>r\<close> is contracted with \<open>k\<close>. NumPy first reads \<open>r.shape[axis]\<close>, which raises
  \<open>IndexError\<close> when \<open>r\<close> has no such axis, then compares it with \<open>len(k)\<close> and raises
  \<open>ValueError\<close> on a mismatch. The result has the shape of \<open>r\<close> without that axis.
\<close>

definition tensordot :: "real ndarray \<Rightarrow> int list \<Rightarrow> nat \<Rightarrow> error + real ndarray" where
  "tensordot r k axis =
     (if length (shape r) \<le> axis then Inl IndexError
      else if shape r ! axis \<noteq> length k then Inl ValueError
      else
        (let n = length k;
             outer = prod_list (take axis (shape r));
             inner = prod_list (drop (Suc axis) (shape r))
         in Inr \<lparr>shape = take axis (shape r) @ drop (Suc axis) (shape r),
                 data = map (\<lambda>idx. sum_list (map (\<lambda>j. data r ! (((idx div inner) * n + j) * inner
                                                                 + idx mod inner)
                                                        * of_int (k ! j)) [0..<n]))
                          [0..<outer * inner]\<rparr>))"

text \<open>
  Elementwise \<open>a + b\<close> of two arrays of one shape. All terms of the sum below come from
  contracting the same axis of the same \<open>r\<close>, so their shapes agree; a mismatch is a
  \<open>ValueError\<close>.
\<close>

definition np_add :: "complex ndarray \<Rightarrow> complex ndarray \<Rightarrow> error + complex ndarray" where
  "np_add a b =
     (if shape a = shape b
      then Inr \<lparr>shape = shape a, data = map (\<lambda>(x, y). x + y) (zip (data a) (data b))\<rparr>
      else Inl ValueError)"

text \<open>
  Python's \<open>sum\<close> of a list of arrays starts from the integer \<open>0\<close>, and \<open>0 + a\<close> is \<open>a\<close>;
  of the empty list it is that \<open>0\<close>, a zero-dimensional value.
\<close>

fun sum_from :: "complex ndarray \<Rightarrow> complex ndarray list \<Rightarrow> error + complex ndarray" where
  "sum_from acc [] = Inr acc"
| "sum_from acc (t # ts) =
     (case np_add acc t of Inl e \<Rightarrow> Inl e | Inr acc' \<Rightarrow> sum_from acc' ts)"

definition py_sum :: "complex ndarray list \<Rightarrow> error + complex ndarray" where
  "py_sum terms =
     (case terms of [] \<Rightarrow> Inr \<lparr>shape = [], data = [0]\<rparr> | t # ts \<Rightarrow> sum_from t ts)"

text \<open>
  A dictionary keeps its insertion order: it is the list of its items, with distinct
  keys. \<open>next(iter(coeffs_dict.keys()))\<close> is the first key, and raises \<open>StopIteration\<close>
  on an empty dictionary.
  \<^verbatim>\<open>
  dim = len(next(iter(coeffs_dict.keys())))
  def space_function(r):
      return sum([coeffs_dict[k] * np.exp(np.pi * 1j * np.tensordot(r, k, axes=([dim], [0])))
                  for k in coeffs_dict])
  \<close>
  The captured \<open>dim\<close> is the parameter \<open>dim'\<close> of \<open>space_function\<close>.
\<close>

definition space_function ::
  "(int list \<times> complex) list \<Rightarrow> nat \<Rightarrow> real ndarray \<Rightarrow> error + complex ndarray" where
  "space_function coeffs_dict dim' r =
     (case map_err (\<lambda>(k, c).
               case tensordot r k dim' of
                 Inl e \<Rightarrow> Inl e
               | Inr t \<Rightarrow>
                   Inr \<lparr>shape = shape t,
                        data = map (\<lambda>x. c * exp (of_real pi * \<i> * of_real x)) (data t)\<rparr>)
             coeffs_dict of
        Inl e \<Rightarrow> Inl e
      | Inr terms \<Rightarrow> py_sum terms)"

definition plane_wave ::
  "(int list \<times> complex) list \<Rightarrow> error + (real ndarray \<Rightarrow> error + complex ndarray)" where
  "plane_wave coeffs_dict =
     (case coeffs_dict of
        [] \<Rightarrow> Inl StopIteration
      | (k, _) # _ \<Rightarrow> Inr (space_function coeffs_dict (length k)))"

text \<open>
  \<open>np.linalg.norm\<close> of a one-dimensional complex array computes
  \<^verbatim>\<open>
  sqnorm = x_real.dot(x_real) + x_imag.dot(x_imag)
  ret = sqrt(sqnorm)
  \<close>
  Every square and every partial sum is a float: it overflows to an infinity or is
  rounded to a subnormal number as \<open>fl\<close> says. The square root of an infinity is an
  infinity. The order in which the library accumulates the dot product is taken to be
  the order of the array.
\<close>

fun fp_plus :: "real fp \<Rightarrow> real fp \<Rightarrow> real fp" where
  "fp_plus (Finite a) (Finite b) = fl (a + b)"
| "fp_plus _ _ = NonFinite"

definition np_dot_self :: "real list \<Rightarrow> real fp" where
  "np_dot_self x = foldl (\<lambda>acc c. fp_plus acc (fl (c * c))) (Finite 0) x"

definition np_linalg_norm_complex :: "complex list \<Rightarrow> real fp" where
  "np_linalg_norm_complex x =
     (case fp_plus (np_dot_self (map Re x)) (np_dot_self (map Im x)) of
        Finite sqnorm \<Rightarrow> Finite (sqrt sqnorm)
      | NonFinite \<Rightarrow> NonFinite)"

text \<open>
  An entry of a complex array divided by the norm: both parts are divided (NumPy
  multiplies them by the reciprocal of the norm, which differs by rounding only). A zero
  norm raises nothing and gives an infinity or a NaN, an infinite norm gives \<open>0\<close>.
\<close>

fun np_cdiv :: "complex \<Rightarrow> real fp \<Rightarrow> complex fp" where
  "np_cdiv z NonFinite = Finite 0"
| "np_cdiv z (Finite n) =
     (if n = 0 then NonFinite
      else
        (case (fl (Re z / n), fl (Im z / n)) of
           (Finite a, Finite b) \<Rightarrow> Finite (Complex a b)
         | _ \<Rightarrow> NonFinite))"

text \<open>
  \<^verbatim>\<open>
  pw_flat = plane_wave_r.flatten()
  pw_flat_norm = pw_flat / np.linalg.norm(pw_flat)
  return pw_flat_norm.reshape(plane_wave_r.shape)
  \<close>
  \<open>reshape\<close> raises \<open>ValueError\<close> when the entries do not fill the shape.
\<close>

definition np_reshape :: "'a list \<Rightarrow> nat list \<Rightarrow> error + 'a ndarray" where
  "np_reshape v shp =
     (if length v = prod_list shp then Inr \<lparr>shape = shp, data = v\<rparr> else Inl ValueError)"

definition plane_wave_renorm :: "complex ndarray \<Rightarrow> error + complex fp ndarray" where
  "plane_wave_renorm plane_wave_r =
     (let pw_flat = data plane_wave_r;
          pw_flat_norm = map (\<lambda>z. np_cdiv z (np_linalg_norm_complex pw_flat)) pw_flat
      in np_reshape pw_flat_norm (shape plane_wave_r))"

text \<open>
  The exact flattened L2 norm, the square root of the sum of the squared moduli, for
  stating the claim.
\<close>

definition l2_norm :: "complex list \<Rightarrow> real" where
  "l2_norm v = sqrt (sum_list (map (\<lambda>z. (cmod z) ^ 2) v))"

text \<open>The finite entries of an array of float results, when all of them are finite.\<close>

fun finite_values :: "'a fp list \<Rightarrow> 'a list option" where
  "finite_values [] = Some []"
| "finite_values (Finite x # xs) = (case finite_values xs of None \<Rightarrow> None | Some ys \<Rightarrow> Some (x # ys))"
| "finite_values (NonFinite # xs) = None"

section \<open>Properties of the transform engine\<close>

subsection \<open>The result of \<open>dft\<close>\<close>

lemma py_range_Nil: "k_max \<le> k_min \<Longrightarrow> py_range k_min k_max = []"
  by (simp add: py_range_def)

lemma py_range_Cons: "k_min < k_max \<Longrightarrow> py_range k_min k_max = k_min # py_range (k_min + 1) k_max"
proof -
  assume lt: "k_min < k_max"
  then obtain m where m: "nat (k_max - k_min) = Suc m"
    by (cases "nat (k_max - k_min)") auto
  then have m': "nat (k_max - (k_min + 1)) = m"
    by linarith
  have "[0..<Suc m] = 0 # map Suc [0..<m]"
    by (simp add: upt_conv_Cons map_Suc_upt del: upt_Suc)
  then show ?thesis
    by (simp add: py_range_def m m' comp_def del: upt_Suc)
qed

lemma dft_loop_fold:
  "signal \<noteq> [] \<Longrightarrow>
   dft_loop signal k_min ks res =
     Inr (fold (\<lambda>k r. r[nat (k - k_min) := dft_sum signal k / of_nat (length signal)]) ks res)"
  by (induction ks arbitrary: res) simp_all

lemma fold_update_range:
  "m \<le> length res \<Longrightarrow>
   fold (\<lambda>k r. r[nat (k - k_min) := f k]) (map (\<lambda>n. k_min + int n) [0..<m]) res =
     map (\<lambda>n. f (k_min + int n)) [0..<m] @ drop m res"
proof (induction m)
  case 0
  then show ?case by simp
next
  case (Suc m)
  then have lt: "m < length res" by simp
  have "drop m res = res ! m # drop (Suc m) res"
    using lt by (simp add: Cons_nth_drop_Suc)
  then show ?case
    using Suc by (simp add: list_update_append)
qed

lemma dft_loop_range:
  assumes "signal \<noteq> []" "k_min \<le> k_max"
  shows "dft_loop signal k_min (py_range k_min k_max) (replicate (nat (k_max - k_min)) 0) =
         Inr (map (\<lambda>k. dft_sum signal k / of_nat (length signal)) (py_range k_min k_max))"
  using assms
  by (simp add: dft_loop_fold py_range_def fold_update_range comp_def)

lemma dft_nonempty:
  assumes "signal \<noteq> []" "k_min \<le> k_max"
  shows "dft signal k_min k_max =
         Inr (map (\<lambda>k. dft_sum signal k / of_nat (length signal)) (py_range k_min k_max))"
  using assms by (simp add: dft_def np_zeros_def dft_loop_range)

lemma dft_negative_window: "k_max < k_min \<Longrightarrow> dft signal k_min k_max = Inl ValueError"
  by (simp add: dft_def np_zeros_def)

lemma dft_empty_window: "dft signal k_min k_min = Inr []"
  by (simp add: dft_def np_zeros_def py_range_def)

lemma dft_empty_signal: "k_min < k_max \<Longrightarrow> dft [] k_min k_max = Inl ZeroDivisionError"
  by (simp add: dft_def np_zeros_def py_range_Cons)

subsection \<open>The full-band round trip\<close>



lemma getitem_in_range:
  "0 \<le> i \<Longrightarrow> i < int (length a) \<Longrightarrow> getitem a i = Inr (a ! nat i)"
  by (simp add: getitem_def)

lemma idft_sum_ok:
  "(\<forall>k \<in> set ks. 0 \<le> k - k_min \<and> k - k_min < int (length spec)) \<Longrightarrow>
   idft_sum spec sig_len k_min n ks s =
     Inr (s + sum_list (map (\<lambda>k. spec ! nat (k - k_min) *
            exp (\<i> * 2 * of_real pi * of_int k * of_int n / of_int sig_len)) ks))"
  by (induction ks arbitrary: s) (simp_all add: getitem_in_range add.assoc)

lemma py_range_bounds: "k \<in> set (py_range a b) \<Longrightarrow> a \<le> k \<and> k < b"
  by (auto simp: py_range_def)

lemma idft_loop_fold:
  assumes "nat (k_max - k_min) \<le> length spec"
  shows "idft_loop spec sig_len k_min k_max ns res =
     Inr (fold (\<lambda>n r. r[nat n := sum_list (map (\<lambda>k. spec ! nat (k - k_min) *
            exp (\<i> * 2 * of_real pi * of_int k * of_int n / of_int sig_len)) (py_range k_min k_max))]) ns res)"
proof -
  have ok: "\<forall>k \<in> set (py_range k_min k_max). 0 \<le> k - k_min \<and> k - k_min < int (length spec)"
    using assms by (auto dest!: py_range_bounds)
  show ?thesis
    by (induction ns arbitrary: res) (simp_all add: idft_sum_ok [OF ok])
qed

lemma fold_update_range0:
  "m \<le> length res \<Longrightarrow>
   fold (\<lambda>n r. r[nat n := f n]) (map int [0..<m]) res = map (\<lambda>n. f (int n)) [0..<m] @ drop m res"
  using fold_update_range [of m res 0 f] by simp

lemma idft_ok:
  assumes "nat (k_max - k_min) \<le> length spec" "0 \<le> sig_len"
  shows "idft spec sig_len k_min k_max =
     Inr (map (\<lambda>n. sum_list (map (\<lambda>k. spec ! nat (k - k_min) *
            exp (\<i> * 2 * of_real pi * of_int k * of_int n / of_int sig_len)) (py_range k_min k_max)))
          (py_range 0 sig_len))"
  using assms
  by (simp add: idft_def np_zeros_def idft_loop_fold py_range_def [of 0] fold_update_range0 comp_def)


























lemma dft_idft_truncated_window:
  "\<exists>spectrum. dft [1, 0] 0 1 = Inr spectrum \<and> idft spectrum 2 0 1 = Inr [1 / 2, 1 / 2]"
  by (simp add: dft_def np_zeros_def py_range_def dft_sum_def idft_def getitem_def
      numeral_2_eq_2)




subsection \<open>Empty signals and degenerate windows\<close>

text \<open>
  C10: \<open>dft\<close> divides each frequency sum by \<open>len(signal)\<close>. On an empty signal and a
  window with \<open>k_max > k_min\<close> it fails with \<open>ZeroDivisionError\<close>. On a non-empty signal
  it never fails that way, and for every window with \<open>k_min \<le> k_max\<close> it returns, for
  each frequency index of the window, the frequency sum divided by the length.
\<close>

theorem dft_empty_signal_division_by_zero:
  "(k_min < k_max \<longrightarrow> dft [] k_min k_max = Inl ZeroDivisionError) \<and>
   (signal \<noteq> [] \<longrightarrow> dft signal k_min k_max \<noteq> Inl ZeroDivisionError) \<and>
   (signal \<noteq> [] \<and> k_min \<le> k_max \<longrightarrow>
      dft signal k_min k_max =
        Inr (map (\<lambda>k. dft_sum signal k / of_nat (length signal)) (py_range k_min k_max)))"
proof (intro conjI impI)
  assume "k_min < k_max"
  then show "dft [] k_min k_max = Inl ZeroDivisionError"
    by (rule dft_empty_signal)
next
  assume ne: "signal \<noteq> []"
  show "dft signal k_min k_max \<noteq> Inl ZeroDivisionError"
  proof (cases "k_min \<le> k_max")
    case True
    with ne show ?thesis by (simp add: dft_nonempty)
  next
    case False
    then show ?thesis by (simp add: dft_negative_window)
  qed
next
  assume "signal \<noteq> [] \<and> k_min \<le> k_max"
  then show "dft signal k_min k_max =
      Inr (map (\<lambda>k. dft_sum signal k / of_nat (length signal)) (py_range k_min k_max))"
    by (simp add: dft_nonempty)
qed

theorem dft_empty_signal_division_by_zero_witness:
  "dft [] 0 2 = Inl ZeroDivisionError \<and>
   dft [1, 2] 0 2 \<noteq> Inl ZeroDivisionError \<and>
   dft [1, 2] 0 2 =
     Inr (map (\<lambda>k. dft_sum [1, 2] k / of_nat (length [1, 2 :: complex])) (py_range 0 2))"
  using dft_empty_signal_division_by_zero [of 0 2 "[1, 2]"] by simp

text \<open>
  C8 as stated (an empty result for every \<open>k_max \<le> k_min\<close>) fails when \<open>k_max < k_min\<close>:
  allocating the result array of negative length raises \<open>ValueError\<close>.
\<close>

theorem dft_negative_window_counterexample:
  "dft [1] 1 0 = Inl ValueError \<and> dft [1] 1 0 \<noteq> Inr []"
  by (simp add: dft_def np_zeros_def)

text \<open>
  C8, amended: for \<open>k_max = k_min\<close> and every signal \<open>dft\<close> returns the empty array
  without an error; for \<open>k_max < k_min\<close> and every signal it raises \<open>ValueError\<close>.
\<close>

theorem dft_degenerate_window:
  "(k_max = k_min \<longrightarrow> dft signal k_min k_max = Inr []) \<and>
   (k_max < k_min \<longrightarrow> dft signal k_min k_max = Inl ValueError)"
  by (simp add: dft_empty_window dft_negative_window)

theorem dft_degenerate_window_witness:
  "dft [1, 2] 3 3 = Inr [] \<and> dft [1, 2] 3 1 = Inl ValueError"
  using dft_degenerate_window [of 3 3 "[1, 2]"] dft_degenerate_window [of 1 3 "[1, 2]"]
  by simp

subsection \<open>The two-dimensional transforms\<close>

lemma map_err_map: "map_err f (map h xs) = map_err (\<lambda>x. f (h x)) xs"
  by (induction xs) (auto split: sum.splits)

lemma map_err_nth: "map_err (\<lambda>i. f (xs ! i)) [0..<length xs] = map_err f xs"
proof -
  have "map_err (\<lambda>i. f (xs ! i)) [0..<length xs] = map_err f (map ((!) xs) [0..<length xs])"
    by (simp add: map_err_map)
  then show ?thesis by (simp add: map_nth)
qed

lemma map_err_Inr:
  "map_err f xs = Inr ys \<Longrightarrow> length ys = length xs \<and> (\<forall>i<length xs. f (xs ! i) = Inr (ys ! i))"
proof (induction xs arbitrary: ys)
  case Nil
  then show ?case by simp
next
  case (Cons x xs)
  then show ?case
    by (auto split: sum.splits simp: nth_Cons split: nat.splits)
qed

lemma map_err_all_Inr:
  "(\<And>x. x \<in> set xs \<Longrightarrow> f x = Inr (g x)) \<Longrightarrow> map_err f xs = Inr (map g xs)"
  by (induction xs) simp_all

lemma dft_loop_length:
  "dft_loop signal k_min ks res = Inr out \<Longrightarrow> length out = length res"
  by (induction ks arbitrary: res) (auto split: if_splits)

lemma dft_length: "dft signal k_min k_max = Inr out \<Longrightarrow> length out = nat (k_max - k_min)"
  by (auto simp: dft_def np_zeros_def split: if_splits dest: dft_loop_length)

lemma idft_loop_length:
  "idft_loop spec sig_len k_min k_max ns res = Inr out \<Longrightarrow> length out = length res"
  by (induction ns arbitrary: res) (auto split: sum.splits)

lemma idft_length: "idft spec sig_len k_min k_max = Inr out \<Longrightarrow> length out = nat sig_len"
  by (auto simp: idft_def np_zeros_def split: if_splits dest: idft_loop_length)

lemma column_nth: "column a col = map (\<lambda>j. a ! j ! col) [0..<length a]"
  by (rule nth_equalityI) (simp_all add: column_def)

lemma columns_transpose:
  assumes "a \<noteq> []" "\<forall>row \<in> set a. length row = c"
  shows "map (column a) [0..<c] = transpose a"
proof -
  have "transpose a = map (\<lambda>i. map (\<lambda>j. a ! j ! i) [0..<length a]) [0..<c]"
    using assms by (intro transpose_rectangle) auto
  then show ?thesis by (simp add: column_nth)
qed

lemma np_T_transpose:
  assumes "\<forall>row \<in> set a. length row = c"
  shows "np_T a = transpose a"
proof (cases a)
  case Nil
  then show ?thesis by (simp add: np_T_def)
next
  case (Cons r rs)
  then have "length r = c" using assms by simp
  then have "np_T a = map (column a) [0..<c]"
    using Cons by (simp add: np_T_def)
  also have "\<dots> = transpose a"
    using Cons assms by (intro columns_transpose) auto
  finally show ?thesis .
qed

lemma shape1_rect:
  "a \<noteq> [] \<Longrightarrow> \<forall>row \<in> set a. length row = c \<Longrightarrow> shape1 a = Inr c"
  by (cases a) (simp_all add: shape1_def)

lemma map_err_lengths:
  assumes "map_err f xs = Inr ys" "\<And>x y. f x = Inr y \<Longrightarrow> length y = c"
  shows "\<forall>row \<in> set ys. length row = c"
proof -
  have *: "\<forall>i<length xs. f (xs ! i) = Inr (ys ! i)" "length ys = length xs"
    using map_err_Inr [OF assms(1)] by auto
  show ?thesis
  proof
    fix row
    assume "row \<in> set ys"
    then obtain i where i: "i < length ys" "row = ys ! i"
      by (auto simp: in_set_conv_nth)
    with * have "f (xs ! i) = Inr row" by simp
    then show "length row = c" by (rule assms(2))
  qed
qed

lemma dft2_refines:
  assumes "signal_2d \<noteq> []"
  shows "dft2 signal_2d k_min k_max = dft2_separable signal_2d k_min k_max"
proof (cases "map_err (\<lambda>row. dft row k_min k_max) signal_2d")
  case (Inl e)
  then show ?thesis by (simp add: dft2_def dft2_separable_def)
next
  case (Inr dft_rows)
  let ?K = "nat (k_max - k_min)"
  have rect: "\<forall>row \<in> set dft_rows. length row = ?K"
    by (rule map_err_lengths [OF Inr]) (rule dft_length)
  have ne: "dft_rows \<noteq> []"
    using map_err_Inr [OF Inr] assms by auto
  have sh: "shape1 dft_rows = Inr ?K"
    by (rule shape1_rect [OF ne rect])
  have cols: "map_err (\<lambda>col. dft (column dft_rows col) k_min k_max) [0..<?K] =
              map_err (\<lambda>col. dft col k_min k_max) (transpose dft_rows)"
    using columns_transpose [OF ne rect] map_err_map [of "\<lambda>col. dft col k_min k_max" "column dft_rows" "[0..<?K]"]
    by simp
  show ?thesis
  proof (cases "map_err (\<lambda>col. dft col k_min k_max) (transpose dft_rows)")
    case (Inl e)
    then show ?thesis
      using Inr sh cols by (simp add: dft2_def dft2_separable_def)
  next
    case inr: (Inr dft_columns)
    have "\<forall>row \<in> set dft_columns. length row = ?K"
      by (rule map_err_lengths [OF inr]) (rule dft_length)
    then have "np_T dft_columns = transpose dft_columns"
      by (rule np_T_transpose)
    then show ?thesis
      using Inr sh cols inr by (simp add: dft2_def dft2_separable_def)
  qed
qed

lemma idft2_refines:
  assumes "spectrum \<noteq> []" "\<forall>row \<in> set spectrum. length row = c"
  shows "idft2 spectrum original_shape k_min k_max =
         idft2_separable spectrum original_shape k_min k_max"
proof -
  have sh: "shape1 spectrum = Inr c"
    by (rule shape1_rect [OF assms])
  have cols: "map_err (\<lambda>col. idft (column spectrum col) (fst original_shape) k_min k_max) [0..<c] =
              map_err (\<lambda>col. idft col (fst original_shape) k_min k_max) (transpose spectrum)"
    using columns_transpose [OF assms]
      map_err_map [of "\<lambda>col. idft col (fst original_shape) k_min k_max" "column spectrum" "[0..<c]"]
    by simp
  show ?thesis
  proof (cases "map_err (\<lambda>col. idft col (fst original_shape) k_min k_max) (transpose spectrum)")
    case (Inl e)
    then show ?thesis
      using sh cols by (simp add: idft2_def idft2_separable_def)
  next
    case (Inr by_cols)
    have "\<forall>row \<in> set by_cols. length row = nat (fst original_shape)"
      by (rule map_err_lengths [OF Inr]) (rule idft_length)
    then have "np_T by_cols = transpose by_cols"
      by (rule np_T_transpose)
    then show ?thesis
      using sh cols Inr
        map_err_nth [of "\<lambda>row. idft row (snd original_shape) k_min k_max" "transpose by_cols"]
      by (simp add: idft2_def idft2_separable_def Let_def)
  qed
qed

lemma length_py_range: "length (py_range a b) = nat (b - a)"
  by (simp add: py_range_def)

lemma nth_py_range: "i < nat (b - a) \<Longrightarrow> py_range a b ! i = a + int i"
  by (simp add: py_range_def)

lemma dft2_value:
  assumes ne: "signal_2d \<noteq> []"
    and rect: "\<forall>row \<in> set signal_2d. length row = ncols"
    and pos: "0 < ncols"
    and win: "k_min < k_max"
  shows "\<exists>out. dft2 signal_2d k_min k_max = Inr out \<and>
           length out = nat (k_max - k_min) \<and>
           (\<forall>a < nat (k_max - k_min). length (out ! a) = nat (k_max - k_min) \<and>
              (\<forall>b < nat (k_max - k_min).
                 out ! a ! b =
                   dft_sum (map (\<lambda>row. dft_sum row (k_min + int b) / of_nat ncols) signal_2d)
                     (k_min + int a) / of_nat (length signal_2d)))"
proof -
  let ?K = "nat (k_max - k_min)"
  let ?rows = "map (\<lambda>row. map (\<lambda>k. dft_sum row k / of_nat ncols) (py_range k_min k_max)) signal_2d"
  let ?col = "\<lambda>col. map (\<lambda>row. dft_sum row (k_min + int col) / of_nat ncols) signal_2d"
  let ?cols = "map (\<lambda>col. map (\<lambda>k. dft_sum (?col col) k / of_nat (length signal_2d))
                      (py_range k_min k_max)) [0..<?K]"
  have K: "0 < ?K" using win by simp
  have rows: "map_err (\<lambda>row. dft row k_min k_max) signal_2d = Inr ?rows"
  proof (rule map_err_all_Inr)
    fix row assume "row \<in> set signal_2d"
    then have "row \<noteq> []" "length row = ncols" using rect pos by auto
    then show "dft row k_min k_max =
        Inr (map (\<lambda>k. dft_sum row k / of_nat ncols) (py_range k_min k_max))"
      using dft_nonempty [of row k_min k_max] win by simp
  qed
  have sh: "shape1 ?rows = Inr ?K"
    using ne by (cases signal_2d) (simp_all add: shape1_def length_py_range)
  have col: "column ?rows col = ?col col" if "col < ?K" for col
    using that by (simp add: column_def comp_def nth_py_range length_py_range)
  have cols: "map_err (\<lambda>col. dft (column ?rows col) k_min k_max) [0..<?K] = Inr ?cols"
  proof (rule map_err_all_Inr)
    fix c assume "c \<in> set [0..<?K]"
    then have c: "c < ?K" by simp
    have "?col c \<noteq> []" using ne by simp
    then have "dft (?col c) k_min k_max =
        Inr (map (\<lambda>k. dft_sum (?col c) k / of_nat (length (?col c))) (py_range k_min k_max))"
      using win by (intro dft_nonempty) simp_all
    then show "dft (column ?rows c) k_min k_max =
        Inr (map (\<lambda>k. dft_sum (?col c) k / of_nat (length signal_2d)) (py_range k_min k_max))"
      by (simp add: col [OF c])
  qed
  have T: "np_T ?cols = map (column ?cols) [0..<?K]"
    using K by (cases "[0..<?K]") (simp_all add: np_T_def length_py_range upt_conv_Cons)
  have d: "dft2 signal_2d k_min k_max = Inr (map (column ?cols) [0..<?K])"
    by (simp only: dft2_def rows sh cols T sum.case)
  have "length (map (column ?cols) [0..<?K] ! a) = ?K \<and>
        (\<forall>b < ?K. map (column ?cols) [0..<?K] ! a ! b =
           dft_sum (?col b) (k_min + int a) / of_nat (length signal_2d))" if "a < ?K" for a
    using that by (simp add: column_def nth_py_range length_py_range)
  with d show ?thesis by simp
qed

lemma idft2_value:
  assumes ne: "spectrum \<noteq> []"
    and rect: "\<forall>row \<in> set spectrum. length row = ncols"
    and pos: "0 < ncols"
    and fit: "nat (k_max - k_min) \<le> length spectrum" "nat (k_max - k_min) \<le> ncols"
    and shape: "0 \<le> fst original_shape" "0 \<le> snd original_shape"
  shows "\<exists>out. idft2 spectrum original_shape k_min k_max = Inr out \<and>
           length out = nat (fst original_shape) \<and>
           (\<forall>row \<in> set out. length row = nat (snd original_shape))"
proof -
  let ?s0 = "fst original_shape" and ?s1 = "snd original_shape"
  have sh: "shape1 spectrum = Inr ncols"
    by (rule shape1_rect [OF ne rect])
  have "\<exists>r. idft (column spectrum col) ?s0 k_min k_max = Inr r" for col
    using idft_ok [of k_max k_min "column spectrum col" ?s0] fit(1) shape(1)
    by (simp add: column_def)
  then obtain g where g: "\<And>col. idft (column spectrum col) ?s0 k_min k_max = Inr (g col)"
    by metis
  have cols: "map_err (\<lambda>col. idft (column spectrum col) ?s0 k_min k_max) [0..<ncols] =
              Inr (map g [0..<ncols])"
    by (rule map_err_all_Inr) (rule g)
  have len_g: "length (g col) = nat ?s0" for col
    using idft_length [OF g] .
  let ?T = "np_T (map g [0..<ncols])"
  have T: "?T = map (column (map g [0..<ncols])) [0..<nat ?s0]"
    using pos len_g by (cases "[0..<ncols]") (simp_all add: np_T_def upt_conv_Cons)
  have lenT: "length ?T = nat ?s0" by (simp add: T)
  let ?f = "\<lambda>row. idft (?T ! row) ?s1 k_min k_max"
  have rows: "map_err ?f [0..<length ?T] = Inr (map (\<lambda>row. projr (?f row)) [0..<length ?T])"
  proof (rule map_err_all_Inr)
    fix row assume "row \<in> set [0..<length ?T]"
    then have "row < nat ?s0" by (simp add: lenT)
    then have "length (?T ! row) = ncols" by (simp add: T column_def)
    then have "\<exists>r. ?f row = Inr r"
      using idft_ok [of k_max k_min "?T ! row" ?s1] fit(2) shape(2) by simp
    then show "?f row = Inr (projr (?f row))" by auto
  qed
  have out: "idft2 spectrum original_shape k_min k_max =
             Inr (map (\<lambda>row. projr (?f row)) [0..<length ?T])"
    by (simp only: idft2_def sh cols rows sum.case Let_def)
  have "length r = nat ?s1" if "r \<in> set (map (\<lambda>row. projr (?f row)) [0..<length ?T])" for r
  proof -
    from that obtain row where row: "row < length ?T" "r = projr (?f row)" by auto
    then have "row \<in> set [0..<length ?T]" by simp
    then have "?f row = Inr r"
      using map_err_Inr [OF rows] row by simp
    then show ?thesis by (rule idft_length)
  qed
  with out lenT show ?thesis by simp
qed

text \<open>
  C9: on a non-empty rectangular grid and a window \<open>k_min < k_max\<close>, \<open>dft2\<close> is the
  separable transform of the specification (1D \<open>dft\<close> of every row, then of every column
  of the intermediate result, transposed back), it succeeds, and entry \<open>(a, b)\<close> of its
  square output is the transform along the row axis at frequency \<open>k_min + a\<close> of the
  row transforms at frequency \<open>k_min + b\<close>, so the output indices follow the input axis
  order. \<open>idft2\<close> is the mirror composition of the specification (1D \<open>idft\<close> of every
  column, then of every row), and it succeeds with an output of the requested shape when
  the window fits into both axes of the spectrum.
\<close>

theorem dft2_idft2_separable:
  "(signal_2d \<noteq> [] \<and> (\<forall>row \<in> set signal_2d. length row = ncols) \<and> 0 < ncols \<and> k_min < k_max \<longrightarrow>
      dft2 signal_2d k_min k_max = dft2_separable signal_2d k_min k_max \<and>
      (\<exists>out. dft2 signal_2d k_min k_max = Inr out \<and>
         length out = nat (k_max - k_min) \<and>
         (\<forall>a < nat (k_max - k_min). length (out ! a) = nat (k_max - k_min) \<and>
            (\<forall>b < nat (k_max - k_min).
               out ! a ! b =
                 dft_sum (map (\<lambda>row. dft_sum row (k_min + int b) / of_nat ncols) signal_2d)
                   (k_min + int a) / of_nat (length signal_2d))))) \<and>
   (spectrum \<noteq> [] \<and> (\<forall>row \<in> set spectrum. length row = ncols) \<and> 0 < ncols \<longrightarrow>
      idft2 spectrum original_shape k_min k_max =
        idft2_separable spectrum original_shape k_min k_max) \<and>
   (spectrum \<noteq> [] \<and> (\<forall>row \<in> set spectrum. length row = ncols) \<and> 0 < ncols \<and>
    nat (k_max - k_min) \<le> length spectrum \<and> nat (k_max - k_min) \<le> ncols \<and>
    0 \<le> fst original_shape \<and> 0 \<le> snd original_shape \<longrightarrow>
      (\<exists>out. idft2 spectrum original_shape k_min k_max = Inr out \<and>
         length out = nat (fst original_shape) \<and>
         (\<forall>row \<in> set out. length row = nat (snd original_shape))))"
  using dft2_refines [of signal_2d k_min k_max]
    dft2_value [of signal_2d ncols k_min k_max]
    idft2_refines [of spectrum ncols original_shape k_min k_max]
    idft2_value [of spectrum ncols k_max k_min original_shape]
  by blast

theorem dft2_idft2_separable_witness:
  "[[1, 2], [3, 4 :: complex]] \<noteq> [] \<and> (0::int) < 2 \<and>
   dft2 [[1, 2], [3, 4]] 0 2 = dft2_separable [[1, 2], [3, 4]] 0 2 \<and>
   (\<exists>out. dft2 [[1, 2], [3, 4]] 0 2 = Inr out \<and> length out = 2) \<and>
   idft2 [[1, 2], [3, 4]] (2, 2) 0 2 = idft2_separable [[1, 2], [3, 4]] (2, 2) 0 2 \<and>
   (\<exists>out. idft2 [[1, 2], [3, 4]] (2, 2) 0 2 = Inr out \<and> length out = 2)"
proof -
  note T = dft2_idft2_separable [of "[[1, 2], [3, 4]]" 2 0 2 "[[1, 2], [3, 4]]" "(2, 2)"]
  have h: "[[1, 2], [3, 4 :: complex]] \<noteq> [] \<and>
           (\<forall>row \<in> set [[1, 2], [3, 4 :: complex]]. length row = 2) \<and> (0::nat) < 2 \<and> (0::int) < 2"
    by simp
  have h': "nat (2 - 0) \<le> length [[1, 2], [3, 4 :: complex]] \<and> nat (2 - 0) \<le> (2::nat) \<and>
            0 \<le> fst (2 :: int, 2 :: int) \<and> 0 \<le> snd (2 :: int, 2 :: int)"
    by simp
  have e1: "dft2 [[1, 2], [3, 4]] 0 2 = dft2_separable [[1, 2], [3, 4]] 0 2"
    using T h by blast
  have "\<exists>out. dft2 [[1, 2], [3, 4]] 0 2 = Inr out \<and> length out = nat (2 - 0)"
    using T h by blast
  then have e2: "\<exists>out. dft2 [[1, 2], [3, 4]] 0 2 = Inr out \<and> length out = 2"
    by simp
  have e3: "idft2 [[1, 2], [3, 4]] (2, 2) 0 2 = idft2_separable [[1, 2], [3, 4]] (2, 2) 0 2"
    using T h by blast
  have "\<exists>out. idft2 [[1, 2], [3, 4]] (2, 2) 0 2 = Inr out \<and>
          length out = nat (fst (2 :: int, 2 :: int))"
    using T h h' by blast
  then have e4: "\<exists>out. idft2 [[1, 2], [3, 4]] (2, 2) 0 2 = Inr out \<and> length out = 2"
    by simp
  from h e1 e2 e3 e4 show ?thesis by blast
qed

section \<open>Properties of the Hamiltonian assembler\<close>

subsection \<open>The range of the floats\<close>

lemma float_min_normal_pos: "0 < float_min_normal"
  by (simp add: float_min_normal_def)

lemma float_range_one: "float_min_normal \<le> 1" "1 \<le> float_max"
  by (simp_all add: float_min_normal_def float_max_def)

lemma round_even_0: "round_even 0 = 0"
  by (simp add: round_even_def)

lemma fl_0: "fl 0 = Finite 0"
  by (simp add: fl_def float_min_normal_def float_max_def round_even_0)

lemma fl_normal: "float_min_normal \<le> \<bar>x\<bar> \<Longrightarrow> \<bar>x\<bar> \<le> float_max \<Longrightarrow> fl x = Finite x"
  by (simp add: fl_def)

lemma fl_finite:
  assumes "\<bar>x\<bar> \<le> float_max"
  shows "\<exists>y. fl x = Finite y"
proof (cases "\<bar>x\<bar> < float_min_normal")
  case True
  with assms have "fl x = Finite (of_int (round_even (x * 2 ^ 1074)) / 2 ^ 1074)"
    unfolding fl_def by (simp only: not_less [symmetric] if_True if_False)
  then show ?thesis ..
next
  case False
  with assms have "fl x = Finite x"
    unfolding fl_def by (simp only: not_less [symmetric] if_True if_False)
  then show ?thesis ..
qed

lemma fl_moderate: "1 / 2 \<le> \<bar>x\<bar> \<Longrightarrow> \<bar>x\<bar> \<le> 2 ^ 31 \<Longrightarrow> fl x = Finite x"
proof (rule fl_normal)
  assume "1 / 2 \<le> \<bar>x\<bar>"
  moreover have "float_min_normal \<le> 1 / 2"
    by (simp add: float_min_normal_def)
  ultimately show "float_min_normal \<le> \<bar>x\<bar>" by linarith
next
  assume "\<bar>x\<bar> \<le> 2 ^ 31"
  moreover have "(2 :: real) ^ 31 \<le> float_max"
    by (simp add: float_max_def)
  ultimately show "\<bar>x\<bar> \<le> float_max" by linarith
qed

lemma fl_overflow: "float_max < \<bar>x\<bar> \<Longrightarrow> fl x = NonFinite"
  by (simp add: fl_def)

subsection \<open>The kinetic matrix\<close>

lemma np_dot_int32_self: "np_dot_int32 k k = word_of_int (dot_int k)"
  by (induction k) (simp_all add: np_dot_int32_def dot_int_def)

lemma sint_word_of_int_32:
  "- (2 ^ 31) \<le> z \<Longrightarrow> z < 2 ^ 31 \<Longrightarrow> sint (word_of_int z :: int32) = z"
  by (simp add: signed_of_int signed_take_bit_int_eq_self)

lemma dot_int_nonneg: "0 \<le> dot_int k"
  by (induction k) (simp_all add: dot_int_def)

lemma sint_dot_squared:
  assumes "(dot_int k) ^ 2 < 2 ^ 31"
  shows "sint (np_dot_int32 k k ^ 2) = (dot_int k) ^ 2"
proof -
  have "np_dot_int32 k k ^ 2 = (word_of_int ((dot_int k) ^ 2) :: int32)"
    by (simp add: np_dot_int32_self)
  moreover have "- (2 ^ 31) \<le> (dot_int k) ^ 2"
    by (rule order_trans [of _ 0]) simp_all
  ultimately show ?thesis
    using assms by (simp only: sint_word_of_int_32)
qed

lemma np_dot_int32_zero: "\<forall>x \<in> set k. x = 0 \<Longrightarrow> np_dot_int32 k k = 0"
  by (induction k) (simp_all add: np_dot_int32_def)

lemma length_np_diag: "length (np_diag v) = length v"
  by (simp add: np_diag_def)

lemma nth_np_diag:
  "i < length v \<Longrightarrow> j < length v \<Longrightarrow> np_diag v ! i ! j = (if i = j then v ! i else Finite 0)"
  by (simp add: np_diag_def)

lemma length_nth_np_diag: "i < length v \<Longrightarrow> length (np_diag v ! i) = length v"
  by (simp add: np_diag_def)

lemma py_float_pow2_normal:
  "float_min_normal \<le> hbar ^ 2 \<Longrightarrow> hbar ^ 2 \<le> float_max \<Longrightarrow> py_float_pow2 hbar = Inr (hbar ^ 2)"
  by (simp add: py_float_pow2_def fl_normal)

lemma py_float_pow2_overflow: "float_max < hbar ^ 2 \<Longrightarrow> py_float_pow2 hbar = Inl OverflowError"
  by (simp add: py_float_pow2_def fl_overflow)

lemma kenetic_entry_zero:
  assumes "float_min_normal \<le> hbar ^ 2" "hbar ^ 2 \<le> float_max"
    and "float_min_normal \<le> 2 * m" "2 * m \<le> float_max"
    and "\<forall>x \<in> set k. x = 0"
  shows "kenetic_entry k hbar m = Inr (Finite 0)"
proof -
  have m: "fl (2 * m) = Finite (2 * m)" "2 * m \<noteq> 0"
    using assms(3,4) float_min_normal_pos by (simp_all add: fl_normal)
  show ?thesis
    using assms(1,2) m
    by (simp add: kenetic_entry_def py_float_pow2_normal np_dot_int32_zero [OF assms(5)] fl_0)
qed

lemma kenetic_entry_formula:
  assumes "float_min_normal \<le> hbar ^ 2" "hbar ^ 2 \<le> float_max"
    and "float_min_normal \<le> 2 * m" "2 * m \<le> float_max"
    and sq: "(dot_int k) ^ 2 < 2 ^ 31"
    and num: "hbar ^ 2 * (real_of_int (dot_int k)) ^ 2 \<le> float_max"
    and quot: "float_min_normal \<le> hbar ^ 2 * (real_of_int (dot_int k)) ^ 2 / (2 * m)"
      "hbar ^ 2 * (real_of_int (dot_int k)) ^ 2 / (2 * m) \<le> float_max"
  shows "kenetic_entry k hbar m =
         Inr (Finite (hbar ^ 2 * (real_of_int (dot_int k)) ^ 2 / (2 * m)))"
proof -
  let ?D2 = "(real_of_int (dot_int k)) ^ 2"
  have mpos: "0 < 2 * m"
    using assms(3) float_min_normal_pos by linarith
  have m: "fl (2 * m) = Finite (2 * m)"
    using assms(3,4) mpos by (simp add: fl_normal)
  have X: "real_of_int (sint (np_dot_int32 k k ^ 2)) = ?D2"
    by (simp only: sint_dot_squared [OF sq]) simp
  have "0 < hbar ^ 2 * ?D2 / (2 * m)"
    using quot(1) float_min_normal_pos by linarith
  then have "?D2 \<noteq> 0" by auto
  then have "dot_int k \<noteq> 0" by auto
  then have "1 \<le> \<bar>dot_int k\<bar>" by linarith
  then have "1 \<le> (dot_int k) ^ 2"
    by (metis abs_1 abs_le_square_iff one_power2)
  then have one: "1 \<le> ?D2"
    by (metis of_int_1_le_iff of_int_power)
  have "float_min_normal \<le> hbar ^ 2 * 1"
    using assms(1) by simp
  also have "\<dots> \<le> hbar ^ 2 * ?D2"
    using one by (intro mult_left_mono) simp_all
  finally have lo: "float_min_normal \<le> hbar ^ 2 * ?D2" .
  have nn: "0 \<le> hbar ^ 2 * ?D2" by simp
  have n: "fl (hbar ^ 2 * ?D2) = Finite (hbar ^ 2 * ?D2)"
    using lo num nn by (intro fl_normal) simp_all
  have q: "fl (hbar ^ 2 * ?D2 / (2 * m)) = Finite (hbar ^ 2 * ?D2 / (2 * m))"
    using quot mpos by (intro fl_normal) simp_all
  have h: "py_float_pow2 hbar = Inr (hbar ^ 2)"
    using assms(1,2) by (rule py_float_pow2_normal)
  have "kenetic_entry k hbar m =
        Inr (fp_truediv (fl (hbar ^ 2 * ?D2)) (fl (2 * m)))"
    by (simp only: kenetic_entry_def h X sum.case)
  also have "\<dots> = Inr (Finite (hbar ^ 2 * ?D2 / (2 * m)))"
    using mpos by (simp only: n m fp_truediv.simps q) simp
  finally show ?thesis .
qed

lemma kenetic_entry_succeeds:
  assumes "hbar ^ 2 \<le> float_max"
  shows "\<exists>e. kenetic_entry k hbar m = Inr e"
proof -
  have "\<exists>y. fl (hbar ^ 2) = Finite y"
    using assms by (intro fl_finite) simp
  then show ?thesis
    by (auto simp: kenetic_entry_def py_float_pow2_def)
qed

lemma kenetic_Inr:
  assumes "hbar ^ 2 \<le> float_max"
  shows "kenetic k_points hbar m =
         Inr (np_diag (map (\<lambda>k. projr (kenetic_entry k hbar m)) k_points))"
proof -
  have "map_err (\<lambda>k. kenetic_entry k hbar m) k_points =
        Inr (map (\<lambda>k. projr (kenetic_entry k hbar m)) k_points)"
  proof (rule map_err_all_Inr)
    fix k
    from kenetic_entry_succeeds [OF assms, of k m]
    show "kenetic_entry k hbar m = Inr (projr (kenetic_entry k hbar m))" by auto
  qed
  then show ?thesis by (simp add: kenetic_def)
qed

text \<open>
  C2, amended: for every k-point set of length \<open>n\<close> and all positive floats \<open>hbar\<close> and
  \<open>m\<close> with \<open>hbar\<^sup>2\<close> and \<open>2 m\<close> in the range of the normal floats, \<open>kenetic\<close> returns an
  \<open>n \<times> n\<close> matrix that is zero off the diagonal and whose entry for an all-zero k-point
  is exactly \<open>0\<close>; entry \<open>(i, i)\<close> is \<open>hbar\<^sup>2 (k\<^sub>i \<cdot> k\<^sub>i)\<^sup>2 / (2 m)\<close> (up to rounding) whenever
  the square of the exact dot product \<open>k\<^sub>i \<cdot> k\<^sub>i\<close> is below \<open>2\<^sup>3\<^sup>1\<close>, that is representable as
  an \<open>int32\<close>, the product \<open>hbar\<^sup>2 (k\<^sub>i \<cdot> k\<^sub>i)\<^sup>2\<close> does not exceed the largest float and the
  quotient is in the range of the normal floats.
\<close>

theorem kenetic_diagonal:
  assumes "0 < hbar" "0 < m"
    and "float_min_normal \<le> hbar ^ 2" "hbar ^ 2 \<le> float_max"
    and "float_min_normal \<le> 2 * m" "2 * m \<le> float_max"
  shows "\<exists>K. kenetic k_points hbar m = Inr K \<and> length K = length k_points \<and>
           (\<forall>i < length k_points.
              length (K ! i) = length k_points \<and>
              (\<forall>j < length k_points. i \<noteq> j \<longrightarrow> K ! i ! j = Finite 0) \<and>
              ((dot_int (k_points ! i)) ^ 2 < 2 ^ 31 \<and>
               hbar ^ 2 * (real_of_int (dot_int (k_points ! i))) ^ 2 \<le> float_max \<and>
               float_min_normal \<le> hbar ^ 2 * (real_of_int (dot_int (k_points ! i))) ^ 2 / (2 * m) \<and>
               hbar ^ 2 * (real_of_int (dot_int (k_points ! i))) ^ 2 / (2 * m) \<le> float_max \<longrightarrow>
                 K ! i ! i =
                   Finite (hbar ^ 2 * (real_of_int (dot_int (k_points ! i))) ^ 2 / (2 * m))) \<and>
              ((\<forall>x \<in> set (k_points ! i). x = 0) \<longrightarrow> K ! i ! i = Finite 0))"
proof -
  let ?v = "map (\<lambda>k. projr (kenetic_entry k hbar m)) k_points"
  have K: "kenetic k_points hbar m = Inr (np_diag ?v)"
    by (rule kenetic_Inr [OF assms(4)])
  have "length (np_diag ?v ! i) = length k_points \<and>
        (\<forall>j < length k_points. i \<noteq> j \<longrightarrow> np_diag ?v ! i ! j = Finite 0) \<and>
        ((dot_int (k_points ! i)) ^ 2 < 2 ^ 31 \<and>
         hbar ^ 2 * (real_of_int (dot_int (k_points ! i))) ^ 2 \<le> float_max \<and>
         float_min_normal \<le> hbar ^ 2 * (real_of_int (dot_int (k_points ! i))) ^ 2 / (2 * m) \<and>
         hbar ^ 2 * (real_of_int (dot_int (k_points ! i))) ^ 2 / (2 * m) \<le> float_max \<longrightarrow>
           np_diag ?v ! i ! i =
             Finite (hbar ^ 2 * (real_of_int (dot_int (k_points ! i))) ^ 2 / (2 * m))) \<and>
        ((\<forall>x \<in> set (k_points ! i). x = 0) \<longrightarrow> np_diag ?v ! i ! i = Finite 0)"
    if i: "i < length k_points" for i
  proof (intro conjI impI allI)
    show "length (np_diag ?v ! i) = length k_points"
      using i by (simp add: length_nth_np_diag)
  next
    fix j assume "j < length k_points" "i \<noteq> j"
    then show "np_diag ?v ! i ! j = Finite 0"
      using i by (simp add: nth_np_diag)
  next
    assume "(dot_int (k_points ! i)) ^ 2 < 2 ^ 31 \<and>
         hbar ^ 2 * (real_of_int (dot_int (k_points ! i))) ^ 2 \<le> float_max \<and>
         float_min_normal \<le> hbar ^ 2 * (real_of_int (dot_int (k_points ! i))) ^ 2 / (2 * m) \<and>
         hbar ^ 2 * (real_of_int (dot_int (k_points ! i))) ^ 2 / (2 * m) \<le> float_max"
    then have "kenetic_entry (k_points ! i) hbar m =
        Inr (Finite (hbar ^ 2 * (real_of_int (dot_int (k_points ! i))) ^ 2 / (2 * m)))"
      using assms(3-6) by (intro kenetic_entry_formula) simp_all
    then show "np_diag ?v ! i ! i =
        Finite (hbar ^ 2 * (real_of_int (dot_int (k_points ! i))) ^ 2 / (2 * m))"
      using i by (simp add: nth_np_diag)
  next
    assume "\<forall>x \<in> set (k_points ! i). x = 0"
    then have "kenetic_entry (k_points ! i) hbar m = Inr (Finite 0)"
      using assms(3-6) by (intro kenetic_entry_zero) simp_all
    then show "np_diag ?v ! i ! i = Finite 0"
      using i by (simp add: nth_np_diag)
  qed
  with K show ?thesis
    by (simp add: length_np_diag)
qed

theorem kenetic_diagonal_witness:
  "(0::real) < 1 \<and> float_min_normal \<le> 1 ^ 2 \<and> (1::real) ^ 2 \<le> float_max \<and>
   float_min_normal \<le> 2 * 1 \<and> 2 * 1 \<le> float_max \<and> (dot_int [3, 4]) ^ 2 < 2 ^ 31 \<and>
   (\<exists>K. kenetic [[0, 0], [3, 4]] 1 1 = Inr K \<and> length K = 2 \<and> K ! 0 ! 1 = Finite 0 \<and>
      K ! 1 ! 1 = Finite (625 / 2) \<and> K ! 0 ! 0 = Finite 0)"
proof -
  have r: "float_min_normal \<le> 1 ^ 2" "(1::real) ^ 2 \<le> float_max"
    "float_min_normal \<le> 2 * 1" "2 * 1 \<le> float_max"
    by (simp_all add: float_min_normal_def float_max_def)
  have d: "dot_int [3, 4] = 25"
    by (simp add: dot_int_def)
  have e: "hbar_sq * (real_of_int 25) ^ 2 \<le> float_max \<and>
           float_min_normal \<le> hbar_sq * (real_of_int 25) ^ 2 / (2 * 1) \<and>
           hbar_sq * (real_of_int 25) ^ 2 / (2 * 1) \<le> float_max" if "hbar_sq = 1" for hbar_sq :: real
    using that by (simp add: float_min_normal_def float_max_def)
  let ?ks = "[[0, 0], [3, 4 :: int32]]"
  from kenetic_diagonal [of 1 1 ?ks, OF zero_less_one zero_less_one r]
  obtain K where K: "kenetic ?ks 1 1 = Inr K" "length K = length ?ks"
    and entries: "\<forall>i < length ?ks.
              length (K ! i) = length ?ks \<and>
              (\<forall>j < length ?ks. i \<noteq> j \<longrightarrow> K ! i ! j = Finite 0) \<and>
              ((dot_int (?ks ! i)) ^ 2 < 2 ^ 31 \<and>
               1 ^ 2 * (real_of_int (dot_int (?ks ! i))) ^ 2 \<le> float_max \<and>
               float_min_normal \<le> 1 ^ 2 * (real_of_int (dot_int (?ks ! i))) ^ 2 / (2 * 1) \<and>
               1 ^ 2 * (real_of_int (dot_int (?ks ! i))) ^ 2 / (2 * 1) \<le> float_max \<longrightarrow>
                 K ! i ! i =
                   Finite (1 ^ 2 * (real_of_int (dot_int (?ks ! i))) ^ 2 / (2 * 1))) \<and>
              ((\<forall>x \<in> set (?ks ! i). x = 0) \<longrightarrow> K ! i ! i = Finite 0)"
    by blast
  from entries [rule_format, of 0] have "K ! 0 ! 1 = Finite 0" "K ! 0 ! 0 = Finite 0"
    by simp_all
  moreover from entries [rule_format, of 1] e [of "1 ^ 2"] have "K ! 1 ! 1 = Finite (625 / 2)"
    by (simp add: d)
  ultimately show ?thesis
    using K r by (simp add: d)
qed

text \<open>
  C2 as stated (the formula for every k-point set) fails once the \<open>int32\<close> dot product
  wraps: for the k-point \<open>(65536)\<close> the dot product \<open>2\<^sup>3\<^sup>2\<close> wraps to \<open>0\<close>, so the kinetic
  entry is \<open>0\<close> and not \<open>(2\<^sup>3\<^sup>2)\<^sup>2 / 2\<close>.
\<close>

theorem kenetic_overflow_counterexample:
  "kenetic [[65536]] 1 1 = Inr [[Finite 0]] \<and>
   kenetic [[65536]] 1 1 \<noteq>
     Inr [[Finite (1 ^ 2 * (real_of_int (dot_int [65536])) ^ 2 / (2 * 1))]]"
  by (simp add: kenetic_def kenetic_entry_def py_float_pow2_def np_diag_def np_dot_int32_def
      fl_moderate fl_0 dot_int_def)

text \<open>
  A float \<open>hbar\<close> whose square is beyond the largest float makes \<open>hbar**2\<close> raise
  \<open>OverflowError\<close>, whatever the k-points are, as long as there is one.
\<close>

lemma kenetic_hbar_OverflowError: "kenetic [[1]] (10 ^ 200) 1 = Inl OverflowError"
proof -
  have "float_max < ((10 :: real) ^ 200) ^ 2"
    by (simp add: float_max_def)
  then show ?thesis
    by (simp add: kenetic_def kenetic_entry_def py_float_pow2_overflow del: power_numeral)
qed

text \<open>
  C1 as stated fails in its kinetic part: with the default \<open>hbar = 1\<close>, \<open>m = 1\<close> the entry
  of the k-point \<open>(1)\<close> is \<open>1 / 2\<close>, so the matrix is not \<open>diag(0, 1)\<close>.
\<close>

theorem end_to_end_kinetic_counterexample:
  "kenetic [[0], [1]] 1 1 \<noteq> Inr [[Finite 0, Finite 0], [Finite 0, Finite 1]]"
  by (simp add: kenetic_def kenetic_entry_def py_float_pow2_def np_diag_def np_dot_int32_def
      fl_moderate fl_0 upt_conv_Cons numeral_2_eq_2)

text \<open>
  C1, amended: for \<open>k_points = [(0,), (1,)]\<close>, \<open>r_pos = [(0.0,)]\<close>, \<open>cell_area = 1.0\<close> and the
  default \<open>hbar = 1\<close>, \<open>m = 1\<close>, \<open>kenetic\<close> is \<open>diag(0, 1/2)\<close>, and \<open>elec_nuc_potential\<close> has
  both off-diagonal entries equal to \<open>4\<pi>\<close> and both diagonal entries equal to \<open>0\<close>.
\<close>

theorem end_to_end_example:
  "kenetic [[0], [1]] 1 1 = Inr [[Finite 0, Finite 0], [Finite 0, Finite (1 / 2)]] \<and>
   elec_nuc_potential [[0], [1]] 1 [[0]] =
     Inr [[Finite 0, Finite (4 * of_real pi)], [Finite (4 * of_real pi), Finite 0]]"
proof
  show "kenetic [[0], [1]] 1 1 = Inr [[Finite 0, Finite 0], [Finite 0, Finite (1 / 2)]]"
    by (simp add: kenetic_def kenetic_entry_def py_float_pow2_def np_diag_def np_dot_int32_def
        fl_moderate fl_0 upt_conv_Cons numeral_2_eq_2)
  show "elec_nuc_potential [[0], [1]] 1 [[0]] =
     Inr [[Finite 0, Finite (4 * of_real pi)], [Finite (4 * of_real pi), Finite 0]]"
    by (simp add: elec_nuc_potential_def args_list_def enumerate_eq_zip upt_conv_Cons
        numeral_2_eq_2 np_sub_int32_def np_dot_def np_linalg_norm_def fp_div_def)
qed

subsection \<open>The electron-nucleus potential\<close>

lemma potential_loop_equal:
  "potential_loop k k cell_area r_pos (Finite 0) = Inr (Finite 0)"
proof -
  have "potential_loop k k cell_area r_pos acc = Inr (if r_pos = [] then acc else Finite 0)" for acc
    by (induction r_pos arbitrary: acc) simp_all
  then show ?thesis by simp
qed

lemma store_results_append:
  "store_results (xs @ ys) mat = store_results ys (store_results xs mat)"
  by (induction xs mat rule: store_results.induct) simp_all

lemma store_results_length: "length (store_results results mat) = length mat"
  by (induction results mat rule: store_results.induct) simp_all

lemma store_results_row_length:
  "length (store_results results mat ! i) = length (mat ! i)"
proof (induction results mat rule: store_results.induct)
  case (1 mat)
  then show ?case by simp
next
  case (2 i' j v results mat)
  then show ?case
    by (cases "i' = i"; cases "i < length mat") (simp_all add: list_update_beyond)
qed

lemma store_results_nth:
  assumes "distinct (map (\<lambda>(i, j, v). (i, j)) results)"
    and "(i, j, v) \<in> set results"
    and "i < length mat" "j < length (mat ! i)"
  shows "store_results results mat ! i ! j = v"
  using assms
proof (induction results arbitrary: v rule: rev_induct)
  case Nil
  then show ?case by simp
next
  case (snoc x xs)
  obtain i' j' v' where x: "x = (i', j', v')" by (cases x)
  let ?m = "store_results xs mat"
  have len: "i < length ?m" "j < length (?m ! i)"
    using snoc.prems by (simp_all add: store_results_length store_results_row_length)
  show ?case
  proof (cases "(i', j') = (i, j)")
    case True
    have "(i, j, v) \<notin> set xs"
      using snoc.prems(1) True x by (force simp: image_iff)
    with snoc.prems(2) x True have "v' = v" by auto
    with True x len show ?thesis
      by (simp add: store_results_append)
  next
    case False
    with snoc.prems(2) x have mem: "(i, j, v) \<in> set xs" by auto
    have "distinct (map (\<lambda>(i, j, v). (i, j)) xs)"
      using snoc.prems(1) by simp
    then have ih: "?m ! i ! j = v"
      using snoc.IH mem snoc.prems(3,4) by blast
    have "store_results (xs @ [x]) mat ! i ! j = (?m[i' := (?m ! i')[j' := v']]) ! i ! j"
      by (simp add: store_results_append x)
    also have "\<dots> = ?m ! i ! j"
      using False len by (cases "i' = i") simp_all
    finally show ?thesis using ih by simp
  qed
qed

lemma map_err_member:
  "map_err f xs = Inr ys \<Longrightarrow> x \<in> set xs \<Longrightarrow> \<exists>y. f x = Inr y"
  by (induction xs arbitrary: ys) (auto split: sum.splits)

lemma enumerate_nth: "enumerate 0 xs = map (\<lambda>i. (i, xs ! i)) [0..<length xs]"
  by (rule nth_equalityI) (simp_all add: enumerate_eq_zip)

lemma args_list_product:
  "args_list k_points cell_area r_pos =
     map (\<lambda>(i, j). (i, j, k_points ! i, k_points ! j, r_pos, cell_area))
       (List.product [0..<length k_points] [0..<length k_points])"
  by (simp add: args_list_def enumerate_nth product_concat_map comp_def map_concat)

lemma elec_nuc_potential_entry:
  assumes V: "elec_nuc_potential k_points cell_area r_pos = Inr V"
    and i: "i < length k_points" and j: "j < length k_points"
  shows "length V = length k_points \<and> length (V ! i) = length k_points \<and>
         potential_loop (k_points ! i) (k_points ! j) cell_area r_pos (Finite 0) = Inr (V ! i ! j)"
proof -
  let ?n = "length k_points"
  let ?pairs = "List.product [0..<?n] [0..<?n]"
  let ?h = "\<lambda>(i, j). (i, j, k_points ! i, k_points ! j, r_pos, cell_area)"
  let ?mat = "replicate ?n (replicate ?n (Finite 0 :: complex fp))"
  define g where
    "g = (\<lambda>i j. projr (potential_loop (k_points ! i) (k_points ! j) cell_area r_pos (Finite 0)))"
  obtain results where res: "map_err elec_nuc_potential_element (map ?h ?pairs) = Inr results"
    and V': "V = store_results results ?mat"
    using V by (auto simp: elec_nuc_potential_def args_list_product Let_def split: sum.splits)
  have ok: "potential_loop (k_points ! a) (k_points ! b) cell_area r_pos (Finite 0) = Inr (g a b)"
    if "a < ?n" "b < ?n" for a b
  proof -
    have "?h (a, b) \<in> set (map ?h ?pairs)" using that by force
    from map_err_member [OF res this] show ?thesis
      by (auto simp: g_def split: sum.splits)
  qed
  have "map_err (\<lambda>p. elec_nuc_potential_element (?h p)) ?pairs =
        Inr (map (\<lambda>(a, b). (a, b, g a b)) ?pairs)"
    by (rule map_err_all_Inr) (auto simp: ok)
  with res have results: "results = map (\<lambda>(a, b). (a, b, g a b)) ?pairs"
    by (simp add: map_err_map)
  have keys: "map (\<lambda>(i, j, v). (i, j)) results = ?pairs"
    by (simp add: results comp_def case_prod_unfold)
  have d: "distinct (map (\<lambda>(i, j, v). (i, j)) results)"
    unfolding keys by (simp add: distinct_product)
  have mem: "(i, j, g i j) \<in> set results"
    using i j by (force simp: results)
  have "V ! i ! j = g i j"
    unfolding V' by (rule store_results_nth [OF d mem]) (simp_all add: i j)
  with ok [OF i j] show ?thesis
    by (simp add: V' store_results_length store_results_row_length i)
qed

text \<open>
  C3: for equal \<open>k_bra\<close> and \<open>k_ket\<close>, every list of nuclear positions and every
  \<open>cell_area\<close>, \<open>elec_nuc_potential_element\<close> returns the matrix element \<open>0\<close>; hence every
  entry of \<open>elec_nuc_potential\<close> between equal k-points, on or off the diagonal, is \<open>0\<close>.
\<close>

theorem equal_k_points_zero:
  "elec_nuc_potential_element (i, j, k, k, r_pos, cell_area) = Inr (i, j, Finite 0) \<and>
   (elec_nuc_potential k_points cell_area r_pos = Inr V \<longrightarrow>
      (\<forall>a < length k_points. \<forall>b < length k_points.
         k_points ! a = k_points ! b \<longrightarrow> V ! a ! b = Finite 0))"
proof (intro conjI impI allI)
  show "elec_nuc_potential_element (i, j, k, k, r_pos, cell_area) = Inr (i, j, Finite 0)"
    by (simp add: potential_loop_equal)
next
  fix a b
  assume V: "elec_nuc_potential k_points cell_area r_pos = Inr V"
    and a: "a < length k_points" and b: "b < length k_points"
    and eq: "k_points ! a = k_points ! b"
  from elec_nuc_potential_entry [OF V a b]
  have "potential_loop (k_points ! a) (k_points ! b) cell_area r_pos (Finite 0) = Inr (V ! a ! b)"
    by simp
  then show "V ! a ! b = Finite 0"
    by (simp add: eq potential_loop_equal)
qed

theorem equal_k_points_zero_witness:
  "elec_nuc_potential_element (0, 1, [1, 2], [1, 2], [[0]], 1) = Inr (0, 1, Finite 0) \<and>
   elec_nuc_potential [[1], [1]] 1 [[0]] = Inr [[Finite 0, Finite 0], [Finite 0, Finite 0]] \<and>
   [[Finite 0, Finite 0], [Finite 0, Finite (0 :: complex)]] ! 0 ! 1 = Finite 0"
proof -
  let ?V = "[[Finite 0, Finite 0], [Finite 0, Finite (0 :: complex)]]"
  have V: "elec_nuc_potential [[1], [1]] 1 [[0]] = Inr ?V"
    by (simp add: elec_nuc_potential_def args_list_def enumerate_eq_zip)
  note T = equal_k_points_zero [of 0 1 "[1, 2]" "[[0]]" 1 "[[1], [1]]" ?V]
  have "elec_nuc_potential_element (0, 1, [1, 2], [1, 2], [[0]], 1) = Inr (0, 1, Finite 0)"
    using T by blast
  moreover have "?V ! 0 ! 1 = Finite 0"
    using T V by simp
  ultimately show ?thesis using V by blast
qed

subsection \<open>Conjugate symmetry of the potential\<close>

lemma sint_uminus_32:
  fixes x :: int32
  assumes "sint x \<noteq> - (2 ^ 31)"
  shows "sint (- x) = - sint x"
proof -
  have "- (2 ^ 31) \<le> sint x" "sint x < 2 ^ 31"
    using sint_ge [of x] sint_lt [of x] by simp_all
  with assms have "- (2 ^ 31) \<le> - sint x" "- sint x < 2 ^ 31"
    by linarith+
  then show ?thesis
    by (simp add: sint_word_minus signed_take_bit_int_eq_self)
qed

lemma signed_uminus_32:
  fixes x :: int32
  assumes "sint x \<noteq> - (2 ^ 31)"
  shows "(signed (- x) :: real) = - signed x"
proof -
  have "(signed (- x) :: real) = real_of_int (sint (- x))" by simp
  also have "\<dots> = real_of_int (- sint x)"
    by (simp only: sint_uminus_32 [OF assms])
  finally show ?thesis by simp
qed

lemma np_sub_int32_swap:
  assumes "length a = length b"
  shows "np_sub_int32 b a = map_sum id (map uminus) (np_sub_int32 a b)"
proof -
  have "map (\<lambda>(x, y). x - y) (zip b a) = map uminus (map (\<lambda>(x, y). x - y) (zip a b))"
    using assms by (induction a b rule: list_induct2) simp_all
  with assms show ?thesis by (simp add: np_sub_int32_def)
qed

lemma np_sub_int32_equal_length:
  "length a = length b \<Longrightarrow> np_sub_int32 a b = Inr (map (\<lambda>(x, y). x - y) (zip a b))"
  by (simp add: np_sub_int32_def)

lemma np_dot_uminus:
  assumes "\<forall>x \<in> set d. sint x \<noteq> - (2 ^ 31)"
  shows "np_dot (map uminus d) r = map_sum id uminus (np_dot d r)"
proof (cases "length d = length r")
  case True
  then have "(\<Sum>(x, y)\<leftarrow>zip (map uminus d) r. real_of_int (sint x) * y) =
             - (\<Sum>(x, y)\<leftarrow>zip d r. real_of_int (sint x) * y)"
    using assms
  proof (induction d r rule: list_induct2)
    case Nil
    then show ?case by simp
  next
    case (Cons x xs y ys)
    then show ?case by (simp add: signed_uminus_32)
  qed
  with True show ?thesis by (simp add: np_dot_def)
next
  case False
  then show ?thesis by (simp add: np_dot_def)
qed

lemma np_linalg_norm_uminus:
  assumes "\<forall>x \<in> set d. sint x \<noteq> - (2 ^ 31)"
  shows "np_linalg_norm (map uminus d) = np_linalg_norm d"
proof -
  have "map (\<lambda>x. (real_of_int (sint x)) ^ 2) (map uminus d) = map (\<lambda>x. (real_of_int (sint x)) ^ 2) d"
    using assms by (induction d) (simp_all add: signed_uminus_32)
  then show ?thesis by (simp only: np_linalg_norm_def)
qed

lemma exp_minus_i_cis: "exp (- \<i> * of_real t) = cis (- t)"
  by (simp add: cis_conv_exp)

lemma potential_loop_NonFinite:
  "k_bra \<noteq> k_ket \<Longrightarrow> potential_loop k_bra k_ket cell_area r_pos NonFinite \<noteq> Inr (Finite x)"
  by (induction r_pos) (auto split: sum.splits)

lemma potential_loop_conj:
  assumes "length k_bra = length k_ket"
    and "\<forall>x \<in> set (map (\<lambda>(x, y). x - y) (zip k_bra k_ket)). sint x \<noteq> - (2 ^ 31)"
    and "potential_loop k_bra k_ket cell_area r_pos (Finite a) = Inr (Finite x)"
    and "potential_loop k_ket k_bra cell_area r_pos (Finite (cnj a)) = Inr (Finite y)"
  shows "x = cnj y"
  using assms(3,4)
proof (induction r_pos arbitrary: a x y)
  case Nil
  then show ?case by auto
next
  case (Cons r rs)
  let ?d = "map (\<lambda>(x, y). x - y) (zip k_bra k_ket)"
  show ?case
  proof (cases "k_bra = k_ket")
    case True
    with Cons.prems have "potential_loop k_bra k_ket cell_area rs (Finite 0) = Inr (Finite x)"
      "potential_loop k_ket k_bra cell_area rs (Finite (cnj 0)) = Inr (Finite y)"
      by simp_all
    then show ?thesis by (rule Cons.IH)
  next
    case ne: False
    then have ne': "k_ket \<noteq> k_bra" by auto
    have sub1: "np_sub_int32 k_bra k_ket = Inr ?d"
      using assms(1) by (rule np_sub_int32_equal_length)
    have sub2: "np_sub_int32 k_ket k_bra = Inr (map uminus ?d)"
      using np_sub_int32_swap [OF assms(1)] sub1 by simp
    note sub = sub1 sub2
    have nrm: "np_linalg_norm (map uminus ?d) = np_linalg_norm ?d"
      by (rule np_linalg_norm_uminus [OF assms(2)])
    have dot: "np_dot (map uminus ?d) r = map_sum id uminus (np_dot ?d r)"
      by (rule np_dot_uminus [OF assms(2)])
    show ?thesis
    proof (cases "np_dot ?d r")
      case (Inl e)
      with Cons.prems(1) ne sub show ?thesis by simp
    next
      case (Inr dr)
      let ?v = "fp_div (4 * pi) (cell_area * np_linalg_norm ?d ^ 2)"
      have 1: "potential_loop k_bra k_ket cell_area rs
                 (fp_add (Finite a) (fp_scale ?v (exp (- \<i> * of_real dr)))) = Inr (Finite x)"
        using Cons.prems(1) ne sub Inr by simp
      have 2: "potential_loop k_ket k_bra cell_area rs
                 (fp_add (Finite (cnj a)) (fp_scale ?v (exp (- \<i> * of_real (- dr))))) = Inr (Finite y)"
        using Cons.prems(2) ne' sub Inr dot nrm by simp
      show ?thesis
      proof (cases ?v)
        case NonFinite
        with 1 potential_loop_NonFinite [OF ne] show ?thesis by simp
      next
        case (Finite t)
        let ?acc = "a + of_real t * exp (- \<i> * of_real dr)"
        have c: "cnj a + of_real t * exp (- \<i> * of_real (- dr)) = cnj ?acc"
          by (simp only: exp_minus_i_cis complex_cnj_add complex_cnj_mult
              complex_cnj_complex_of_real cis_cnj)
        have s1: "potential_loop k_bra k_ket cell_area rs (Finite ?acc) = Inr (Finite x)"
          using 1 by (simp only: Finite fp_scale.simps fp_add.simps)
        have s2: "potential_loop k_ket k_bra cell_area rs (Finite (cnj ?acc)) = Inr (Finite y)"
          using 2 by (simp only: Finite fp_scale.simps fp_add.simps c)
        from s1 s2 show ?thesis by (rule Cons.IH)
      qed
    qed
  qed
qed

text \<open>
  C4, amended: for every k-point set whose points have one dimension \<open>D\<close>, every
  \<open>cell_area\<close> and every nuclear position set on which \<open>elec_nuc_potential\<close> returns a
  matrix \<open>V\<close> with finite entries, \<open>V\<close> is Hermitian, \<open>V[i,j] = conj(V[j,i])\<close>, provided that
  no component difference \<open>k\<^sub>i[c] - k\<^sub>j[c]\<close>, computed in \<open>int32\<close>, is \<open>-2\<^sup>3\<^sup>1\<close>.
\<close>

theorem elec_nuc_potential_hermitian:
  assumes V: "elec_nuc_potential k_points cell_area r_pos = Inr V"
    and dim: "\<forall>k \<in> set k_points. length k = D"
    and fin: "\<forall>i < length k_points. \<forall>j < length k_points. V ! i ! j \<noteq> NonFinite"
    and nowrap: "\<forall>i < length k_points. \<forall>j < length k_points. \<forall>c < D.
                   sint (k_points ! i ! c - k_points ! j ! c) \<noteq> - (2 ^ 31)"
  shows "\<forall>i < length k_points. \<forall>j < length k_points.
           \<exists>a b. V ! i ! j = Finite a \<and> V ! j ! i = Finite b \<and> a = cnj b"
proof (intro allI impI)
  fix i j
  assume i: "i < length k_points" and j: "j < length k_points"
  let ?kb = "k_points ! i" and ?kk = "k_points ! j"
  obtain a where a: "V ! i ! j = Finite a"
    using fin i j by (cases "V ! i ! j") auto
  obtain b where b: "V ! j ! i = Finite b"
    using fin i j by (cases "V ! j ! i") auto
  have len: "length ?kb = D" "length ?kk = D"
    using dim i j by simp_all
  have l1: "potential_loop ?kb ?kk cell_area r_pos (Finite 0) = Inr (Finite a)"
    using elec_nuc_potential_entry [OF V i j] a by simp
  have l2: "potential_loop ?kk ?kb cell_area r_pos (Finite (cnj 0)) = Inr (Finite b)"
    using elec_nuc_potential_entry [OF V j i] b by simp
  have nw: "\<forall>x \<in> set (map (\<lambda>(x, y). x - y) (zip ?kb ?kk)). sint x \<noteq> - (2 ^ 31)"
  proof
    fix x
    assume "x \<in> set (map (\<lambda>(x, y). x - y) (zip ?kb ?kk))"
    then obtain c where "c < D" "x = ?kb ! c - ?kk ! c"
      using len by (auto simp: set_zip)
    with nowrap i j show "sint x \<noteq> - (2 ^ 31)" by simp
  qed
  have "a = cnj b"
    by (rule potential_loop_conj [OF _ nw l1 l2]) (simp add: len)
  with a b show "\<exists>a b. V ! i ! j = Finite a \<and> V ! j ! i = Finite b \<and> a = cnj b"
    by simp
qed

lemma potential_example:
  "elec_nuc_potential [[0], [1]] 1 [[pi / 2]] =
     Inr [[Finite 0, Finite (of_real (4 * pi) * \<i>)], [Finite (of_real (4 * pi) * (- \<i>)), Finite 0]]"
proof -
  have e1: "exp (- (\<i> * complex_of_real pi / 2)) = - \<i>"
    using exp_minus_i_cis [of "pi / 2"] by simp
  have e2: "exp (\<i> * complex_of_real pi / 2) = \<i>"
    using exp_minus_i_cis [of "- (pi / 2)"] by simp
  show ?thesis
    by (simp add: elec_nuc_potential_def args_list_def enumerate_eq_zip upt_conv_Cons numeral_2_eq_2
      np_sub_int32_def np_dot_def np_linalg_norm_def fp_div_def e1 e2)
qed

theorem elec_nuc_potential_hermitian_witness:
  "elec_nuc_potential [[0], [1]] 1 [[pi / 2]] =
     Inr [[Finite 0, Finite (of_real (4 * pi) * \<i>)], [Finite (of_real (4 * pi) * (- \<i>)), Finite 0]] \<and>
   (\<exists>a b. [[Finite 0, Finite (of_real (4 * pi) * \<i>)], [Finite (of_real (4 * pi) * (- \<i>)), Finite 0]] ! 0 ! 1 = Finite a \<and>
          [[Finite 0, Finite (of_real (4 * pi) * \<i>)], [Finite (of_real (4 * pi) * (- \<i>)), Finite 0]] ! 1 ! 0 = Finite b \<and>
          a = cnj b)"
proof -
  let ?V = "[[Finite 0, Finite (of_real (4 * pi) * \<i>)], [Finite (of_real (4 * pi) * (- \<i>)), Finite 0]]"
  let ?ks = "[[0], [1 :: int32]]"
  have V: "elec_nuc_potential ?ks 1 [[pi / 2]] = Inr ?V"
    by (rule potential_example)
  have dim: "\<forall>k \<in> set ?ks. length k = 1" by simp
  have fin: "\<forall>i < length ?ks. \<forall>j < length ?ks. ?V ! i ! j \<noteq> NonFinite"
    by (simp add: less_Suc_eq)
  have nowrap: "\<forall>i < length ?ks. \<forall>j < length ?ks. \<forall>c < 1.
                   sint (?ks ! i ! c - ?ks ! j ! c) \<noteq> - (2 ^ 31)"
    by (simp add: less_Suc_eq)
  have "\<exists>a b. ?V ! 0 ! 1 = Finite a \<and> ?V ! 1 ! 0 = Finite b \<and> a = cnj b"
    using elec_nuc_potential_hermitian [OF V dim fin nowrap] by simp
  with V show ?thesis by blast
qed

text \<open>
  C4 as stated fails when a component difference wraps: for the k-points \<open>(-2\<^sup>3\<^sup>1)\<close> and
  \<open>(0)\<close> both differences are \<open>-2\<^sup>3\<^sup>1\<close> in \<open>int32\<close>, so with a nucleus at \<open>\<pi> / 2\<^sup>3\<^sup>2\<close> the entries
  \<open>V[0,1]\<close> and \<open>V[1,0]\<close> are the same non-real number and \<open>V[0,1] \<noteq> conj(V[1,0])\<close>.
\<close>

theorem elec_nuc_potential_wrap_counterexample:
  "elec_nuc_potential [[- 2147483648], [0]] 1 [[pi / 4294967296]] =
     Inr [[Finite 0, Finite (of_real (4 * pi / 2 ^ 62) * \<i>)],
          [Finite (of_real (4 * pi / 2 ^ 62) * \<i>), Finite 0]] \<and>
   of_real (4 * pi / 2 ^ 62) * \<i> \<noteq> cnj (of_real (4 * pi / 2 ^ 62) * \<i>)"
proof -
  have e2: "exp (\<i> * complex_of_real pi / 2) = \<i>"
    using exp_minus_i_cis [of "- (pi / 2)"] by simp
  have s: "sint (- 2147483648 :: int32) = - 2147483648" "sint (2147483648 :: int32) = - 2147483648"
    by simp_all
  have "elec_nuc_potential [[- 2147483648], [0]] 1 [[pi / 4294967296]] =
     Inr [[Finite 0, Finite (of_real (4 * pi / 2 ^ 62) * \<i>)],
          [Finite (of_real (4 * pi / 2 ^ 62) * \<i>), Finite 0]]"
    by (simp add: elec_nuc_potential_def args_list_def enumerate_eq_zip s
      np_sub_int32_def np_dot_def np_linalg_norm_def fp_div_def e2)
  moreover have "of_real (4 * pi / 2 ^ 62) * \<i> \<noteq> cnj (of_real (4 * pi / 2 ^ 62) * \<i>)"
    by (simp add: complex_eq_iff)
  ultimately show ?thesis by blast
qed

section \<open>Properties of the plane-wave functional\<close>

subsection \<open>Renormalisation\<close>

lemma sum_sq_nonneg: "0 \<le> sum_list (map (\<lambda>z. (cmod z) ^ 2) v)"
  by (induction v) simp_all

lemma sum_sq_eq_0_iff: "sum_list (map (\<lambda>z. (cmod z) ^ 2) v) = 0 \<longleftrightarrow> (\<forall>z \<in> set v. z = 0)"
proof (induction v)
  case Nil
  then show ?case by simp
next
  case (Cons z v)
  have "(cmod z) ^ 2 + sum_list (map (\<lambda>z. (cmod z) ^ 2) v) = 0 \<longleftrightarrow>
        (cmod z) ^ 2 = 0 \<and> sum_list (map (\<lambda>z. (cmod z) ^ 2) v) = 0"
    using sum_sq_nonneg [of v] by (intro add_nonneg_eq_0_iff) simp_all
  with Cons show ?case by simp
qed

lemma l2_norm_eq_0_iff: "l2_norm v = 0 \<longleftrightarrow> (\<forall>z \<in> set v. z = 0)"
  by (simp add: l2_norm_def sum_sq_eq_0_iff)

lemma l2_norm_nonneg: "0 \<le> l2_norm v"
  by (simp add: l2_norm_def sum_sq_nonneg)

lemma l2_norm_squared: "(l2_norm v) ^ 2 = sum_list (map (\<lambda>z. (cmod z) ^ 2) v)"
  by (simp add: l2_norm_def sum_sq_nonneg)

lemma sum_sq_scaled:
  "sum_list (map (\<lambda>z. (cmod (z / of_real n)) ^ 2) v) = sum_list (map (\<lambda>z. (cmod z) ^ 2) v) / n ^ 2"
  by (induction v) (simp_all add: norm_divide power_divide add_divide_distrib)

lemma l2_norm_normalised:
  assumes "l2_norm v \<noteq> 0"
  shows "l2_norm (map (\<lambda>z. z / of_real (l2_norm v)) v) = 1"
proof -
  let ?n = "l2_norm v"
  have pos: "0 < ?n" using assms l2_norm_nonneg [of v] by simp
  have "l2_norm (map (\<lambda>z. z / of_real ?n) v) =
        sqrt (sum_list (map (\<lambda>z. (cmod z) ^ 2) v) / ?n ^ 2)"
    by (simp add: l2_norm_def comp_def sum_sq_scaled)
  also have "\<dots> = sqrt (sum_list (map (\<lambda>z. (cmod z) ^ 2) v)) / ?n"
    using pos by (simp add: real_sqrt_divide)
  also have "\<dots> = 1"
    using pos by (simp add: l2_norm_def)
  finally show ?thesis .
qed

lemma finite_values_map_Finite: "finite_values (map (\<lambda>z. Finite (f z)) v) = Some (map f v)"
  by (induction v) simp_all

lemma sum_squares_nonneg: "0 \<le> sum_list (map (\<lambda>c. c * c) (x :: real list))"
  by (induction x) simp_all

lemma fl_zero_or_normal:
  assumes "a = 0 \<or> float_min_normal \<le> a" "a \<le> float_max"
  shows "fl a = Finite a"
proof (cases "a = 0")
  case True
  then show ?thesis by (simp add: fl_0)
next
  case False
  with assms float_min_normal_pos have "float_min_normal \<le> \<bar>a\<bar>" "\<bar>a\<bar> \<le> float_max"
    by linarith+
  then show ?thesis by (rule fl_normal)
qed

lemma foldl_dot_self:
  assumes "a = 0 \<or> float_min_normal \<le> a"
    and "a + sum_list (map (\<lambda>c. c * c) x) \<le> float_max"
    and "\<forall>c \<in> set x. c = 0 \<or> float_min_normal \<le> c * c"
  shows "foldl (\<lambda>acc c. fp_plus acc (fl (c * c))) (Finite a) x =
         Finite (a + sum_list (map (\<lambda>c. c * c) x))"
  using assms
proof (induction x arbitrary: a)
  case Nil
  then show ?case by simp
next
  case (Cons c x)
  have a0: "0 \<le> a"
    using Cons.prems(1) float_min_normal_pos by linarith
  have rest: "0 \<le> sum_list (map (\<lambda>c. c * c) x)"
    by (rule sum_squares_nonneg)
  have c0: "0 \<le> c * c" by simp
  have cc: "c * c = 0 \<or> float_min_normal \<le> c * c"
    using Cons.prems(3) by auto
  have "c * c \<le> float_max"
    using Cons.prems(2) a0 rest by simp
  with cc have flc: "fl (c * c) = Finite (c * c)"
    by (rule fl_zero_or_normal)
  have s1: "a + c * c = 0 \<or> float_min_normal \<le> a + c * c"
    using Cons.prems(1) cc a0 c0 by linarith
  have "a + c * c \<le> float_max"
    using Cons.prems(2) rest by simp
  with s1 have fls: "fl (a + c * c) = Finite (a + c * c)"
    by (rule fl_zero_or_normal)
  have "foldl (\<lambda>acc c. fp_plus acc (fl (c * c))) (Finite (a + c * c)) x =
        Finite (a + c * c + sum_list (map (\<lambda>c. c * c) x))"
    using s1 Cons.prems(2,3) by (intro Cons.IH) (simp_all add: add.assoc)
  then show ?case
    by (simp add: flc fls add.assoc)
qed

lemma sum_zero_or_normal:
  assumes "\<forall>c \<in> set x. c = 0 \<or> float_min_normal \<le> c * c"
  shows "sum_list (map (\<lambda>c. c * c) x) = 0 \<or> float_min_normal \<le> sum_list (map (\<lambda>c. c * c) x)"
  using assms
proof (induction x)
  case Nil
  then show ?case by simp
next
  case (Cons c x)
  have "0 \<le> c * c" "0 \<le> sum_list (map (\<lambda>c. c * c) x)"
    by (simp_all add: sum_squares_nonneg)
  moreover have "c * c = 0 \<or> float_min_normal \<le> c * c"
    using Cons.prems by auto
  moreover have "sum_list (map (\<lambda>c. c * c) x) = 0 \<or>
      float_min_normal \<le> sum_list (map (\<lambda>c. c * c) x)"
    using Cons by simp
  ultimately show ?case
    by (simp only: list.map sum_list.Cons) linarith
qed

lemma np_dot_self_exact:
  assumes "sum_list (map (\<lambda>c. c * c) x) \<le> float_max"
    and "\<forall>c \<in> set x. c = 0 \<or> float_min_normal \<le> c * c"
  shows "np_dot_self x = Finite (sum_list (map (\<lambda>c. c * c) x))"
  using foldl_dot_self [of 0 x] assms by (simp add: np_dot_self_def)

lemma cmod_sq: "(cmod z) ^ 2 = Re z * Re z + Im z * Im z"
  unfolding cmod_power2 by (simp only: power2_eq_square)

lemma sum_sq_split:
  "sum_list (map (\<lambda>z. (cmod z) ^ 2) v) =
     sum_list (map (\<lambda>c. c * c) (map Re v)) + sum_list (map (\<lambda>c. c * c) (map Im v))"
  by (induction v) (simp_all add: cmod_sq)

lemma square_normal:
  assumes "c = 0 \<or> float_safe_min \<le> \<bar>c :: real\<bar>"
  shows "c = 0 \<or> float_min_normal \<le> c * c"
proof (cases "c = 0")
  case True
  then show ?thesis by simp
next
  case False
  with assms have "float_safe_min \<le> \<bar>c\<bar>" by simp
  moreover have "0 \<le> float_safe_min" by (simp add: float_safe_min_def)
  ultimately have "float_safe_min * float_safe_min \<le> \<bar>c\<bar> * \<bar>c\<bar>"
    by (intro mult_mono) simp_all
  moreover have "float_min_normal \<le> float_safe_min * float_safe_min"
    by (simp add: float_min_normal_def float_safe_min_def)
  moreover have "\<bar>c\<bar> * \<bar>c\<bar> = c * c" by simp
  ultimately show ?thesis by linarith
qed

text \<open>
  Where no square, sum or quotient leaves the range of the normal floats, the norm of
  the source is the exact norm.
\<close>

lemma np_linalg_norm_complex_exact:
  assumes parts: "\<forall>z \<in> set v. (Re z = 0 \<or> float_safe_min \<le> \<bar>Re z\<bar>) \<and>
                                (Im z = 0 \<or> float_safe_min \<le> \<bar>Im z\<bar>)"
    and top: "(l2_norm v) ^ 2 \<le> float_max"
  shows "np_linalg_norm_complex v = Finite (l2_norm v)"
proof -
  let ?re = "sum_list (map (\<lambda>c. c * c) (map Re v))"
  let ?im = "sum_list (map (\<lambda>c. c * c) (map Im v))"
  have S: "(l2_norm v) ^ 2 = ?re + ?im"
    by (simp only: l2_norm_squared sum_sq_split)
  have nn: "0 \<le> ?re" "0 \<le> ?im"
    by (rule sum_squares_nonneg)+
  have re_parts: "\<forall>c \<in> set (map Re v). c = 0 \<or> float_min_normal \<le> c * c"
  proof
    fix c assume "c \<in> set (map Re v)"
    then obtain z where "z \<in> set v" "c = Re z" by auto
    with parts have "c = 0 \<or> float_safe_min \<le> \<bar>c\<bar>" by auto
    then show "c = 0 \<or> float_min_normal \<le> c * c" by (rule square_normal)
  qed
  have im_parts: "\<forall>c \<in> set (map Im v). c = 0 \<or> float_min_normal \<le> c * c"
  proof
    fix c assume "c \<in> set (map Im v)"
    then obtain z where "z \<in> set v" "c = Im z" by auto
    with parts have "c = 0 \<or> float_safe_min \<le> \<bar>c\<bar>" by auto
    then show "c = 0 \<or> float_min_normal \<le> c * c" by (rule square_normal)
  qed
  have "?re \<le> float_max" "?im \<le> float_max"
    using top S nn by linarith+
  then have re: "np_dot_self (map Re v) = Finite ?re"
    and im: "np_dot_self (map Im v) = Finite ?im"
    using re_parts im_parts by (simp_all only: np_dot_self_exact)
  have zn: "?re = 0 \<or> float_min_normal \<le> ?re" "?im = 0 \<or> float_min_normal \<le> ?im"
    using sum_zero_or_normal [OF re_parts] sum_zero_or_normal [OF im_parts] by simp_all
  have "?re + ?im = 0 \<or> float_min_normal \<le> ?re + ?im"
    using zn nn by linarith
  moreover have "?re + ?im \<le> float_max"
    using top S by simp
  ultimately have "fl (?re + ?im) = Finite (?re + ?im)"
    by (rule fl_zero_or_normal)
  then have "np_linalg_norm_complex v = Finite (sqrt (?re + ?im))"
    by (simp only: np_linalg_norm_complex_def re im fp_plus.simps fp.case)
  also have "sqrt (?re + ?im) = l2_norm v"
    by (simp only: l2_norm_def sum_sq_split)
  finally show ?thesis .
qed

lemma cmod_le_l2_norm:
  assumes "z \<in> set v"
  shows "cmod z \<le> l2_norm v"
proof -
  have "(cmod z) ^ 2 \<le> sum_list (map (\<lambda>z. (cmod z) ^ 2) v)"
    using assms
  proof (induction v)
    case Nil
    then show ?case by simp
  next
    case (Cons w v)
    have "0 \<le> sum_list (map (\<lambda>z. (cmod z) ^ 2) v)" "0 \<le> (cmod w) ^ 2"
      by (simp_all add: sum_sq_nonneg)
    with Cons show ?case
      by (cases "z = w") (auto simp: add_increasing)
  qed
  then have "(cmod z) ^ 2 \<le> (l2_norm v) ^ 2"
    by (simp only: l2_norm_squared)
  then show ?thesis
    using l2_norm_nonneg by (rule power2_le_imp_le)
qed

lemma fl_quotient:
  assumes c: "c = 0 \<or> float_safe_min \<le> \<bar>c\<bar>"
    and le: "\<bar>c\<bar> \<le> n"
    and n: "0 < n" "n ^ 2 \<le> float_max"
  shows "fl (c / n) = Finite (c / n)"
proof (cases "c = 0")
  case True
  then show ?thesis by (simp add: fl_0)
next
  case False
  with c have lo: "float_safe_min \<le> \<bar>c\<bar>" by simp
  have "float_max \<le> (2 ^ 512) ^ 2"
    by (simp add: float_max_def)
  with n(2) have "n ^ 2 \<le> (2 ^ 512) ^ 2" by linarith
  then have n512: "n \<le> 2 ^ 512"
    by (rule power2_le_imp_le) simp
  have "float_min_normal = float_safe_min / 2 ^ 512"
    by (simp add: float_min_normal_def float_safe_min_def)
  also have "\<dots> \<le> \<bar>c\<bar> / n"
    using lo n(1) n512 by (intro frac_le) (simp_all add: float_safe_min_def)
  finally have 1: "float_min_normal \<le> \<bar>c / n\<bar>"
    using n(1) by simp
  have "\<bar>c / n\<bar> \<le> 1"
    using le n(1) by simp
  with float_range_one(2) have 2: "\<bar>c / n\<bar> \<le> float_max" by linarith
  from 1 2 show ?thesis by (rule fl_normal)
qed

lemma np_cdiv_exact:
  assumes z: "z \<in> set v"
    and parts: "(Re z = 0 \<or> float_safe_min \<le> \<bar>Re z\<bar>) \<and> (Im z = 0 \<or> float_safe_min \<le> \<bar>Im z\<bar>)"
    and n: "l2_norm v \<noteq> 0" "(l2_norm v) ^ 2 \<le> float_max"
  shows "np_cdiv z (Finite (l2_norm v)) = Finite (z / of_real (l2_norm v))"
proof -
  let ?n = "l2_norm v"
  have pos: "0 < ?n"
    using n(1) l2_norm_nonneg [of v] by simp
  have le: "\<bar>Re z\<bar> \<le> ?n" "\<bar>Im z\<bar> \<le> ?n"
    using cmod_le_l2_norm [OF z] abs_Re_le_cmod [of z] abs_Im_le_cmod [of z] by linarith+
  have re: "fl (Re z / ?n) = Finite (Re z / ?n)"
    using parts le(1) pos n(2) by (intro fl_quotient) simp_all
  have im: "fl (Im z / ?n) = Finite (Im z / ?n)"
    using parts le(2) pos n(2) by (intro fl_quotient) simp_all
  have "Complex (Re z / ?n) (Im z / ?n) = z / of_real ?n"
    by (simp add: complex_eq_iff)
  then show ?thesis
    using n(1) by (simp add: re im)
qed

text \<open>
  C7, amended: for every well-formed field of any shape that has a non-zero entry,
  whose non-zero real and imaginary parts all have a magnitude of at least \<open>2\<^sup>-\<^sup>5\<^sup>1\<^sup>0\<close> and
  whose squared L2 norm does not exceed the largest float (so that no square, sum or
  quotient overflows or underflows), \<open>plane_wave_renorm\<close> returns an array of the same
  shape whose entries are the field's entries divided by its flattened L2 norm, and
  whose flattened L2 norm is \<open>1\<close> (up to rounding); for an all-zero field it raises no
  error and returns an array of the same shape whose entries are all non-finite (NaN).
\<close>

theorem plane_wave_renorm_unit_norm:
  assumes "wf_ndarray field"
  shows "((\<exists>z \<in> set (data field). z \<noteq> 0) \<and>
          (\<forall>z \<in> set (data field). (Re z = 0 \<or> float_safe_min \<le> \<bar>Re z\<bar>) \<and>
                                    (Im z = 0 \<or> float_safe_min \<le> \<bar>Im z\<bar>)) \<and>
          (l2_norm (data field)) ^ 2 \<le> float_max \<longrightarrow>
            (\<exists>out vs. plane_wave_renorm field = Inr out \<and> shape out = shape field \<and>
               finite_values (data out) = Some vs \<and>
               vs = map (\<lambda>z. z / of_real (l2_norm (data field))) (data field) \<and>
               l2_norm vs = 1)) \<and>
         ((\<forall>z \<in> set (data field). z = 0) \<longrightarrow>
            plane_wave_renorm field =
              Inr \<lparr>shape = shape field, data = replicate (length (data field)) NonFinite\<rparr>)"
proof (intro conjI impI)
  assume h: "(\<exists>z \<in> set (data field). z \<noteq> 0) \<and>
          (\<forall>z \<in> set (data field). (Re z = 0 \<or> float_safe_min \<le> \<bar>Re z\<bar>) \<and>
                                    (Im z = 0 \<or> float_safe_min \<le> \<bar>Im z\<bar>)) \<and>
          (l2_norm (data field)) ^ 2 \<le> float_max"
  then have n: "l2_norm (data field) \<noteq> 0"
    by (simp add: l2_norm_eq_0_iff)
  let ?vs = "map (\<lambda>z. z / of_real (l2_norm (data field))) (data field)"
  have norm: "np_linalg_norm_complex (data field) = Finite (l2_norm (data field))"
    using h by (intro np_linalg_norm_complex_exact) simp_all
  have "map (\<lambda>z. np_cdiv z (Finite (l2_norm (data field)))) (data field) =
        map (\<lambda>z. Finite (z / of_real (l2_norm (data field)))) (data field)"
  proof (rule map_cong [OF refl])
    fix z assume "z \<in> set (data field)"
    then show "np_cdiv z (Finite (l2_norm (data field))) =
        Finite (z / of_real (l2_norm (data field)))"
      using h n by (intro np_cdiv_exact) simp_all
  qed
  then have "plane_wave_renorm field =
      Inr \<lparr>shape = shape field,
            data = map (\<lambda>z. Finite (z / of_real (l2_norm (data field)))) (data field)\<rparr>"
    using assms by (simp add: plane_wave_renorm_def norm np_reshape_def wf_ndarray_def Let_def)
  moreover have "l2_norm ?vs = 1"
    by (rule l2_norm_normalised [OF n])
  ultimately show "\<exists>out vs. plane_wave_renorm field = Inr out \<and> shape out = shape field \<and>
               finite_values (data out) = Some vs \<and>
               vs = map (\<lambda>z. z / of_real (l2_norm (data field))) (data field) \<and>
               l2_norm vs = 1"
    by (simp add: finite_values_map_Finite)
next
  assume z: "\<forall>z \<in> set (data field). z = 0"
  then have "data field = replicate (length (data field)) 0"
    by (simp add: replicate_length_same)
  then obtain k where k: "data field = replicate k 0" ..
  have dot: "np_dot_self (replicate k 0) = Finite 0"
    by (induction k) (simp_all add: np_dot_self_def fl_0 replicate_app_Cons_same)
  have "np_linalg_norm_complex (replicate k 0) = Finite 0"
    by (simp add: np_linalg_norm_complex_def dot fl_0)
  then show "plane_wave_renorm field =
      Inr \<lparr>shape = shape field, data = replicate (length (data field)) NonFinite\<rparr>"
    using assms k by (simp add: plane_wave_renorm_def np_reshape_def wf_ndarray_def Let_def)
qed

theorem plane_wave_renorm_unit_norm_witness:
  "wf_ndarray \<lparr>shape = [2, 1], data = [3, 4 * \<i>]\<rparr> \<and>
   (\<exists>out vs. plane_wave_renorm \<lparr>shape = [2, 1], data = [3, 4 * \<i>]\<rparr> = Inr out \<and>
      shape out = [2, 1] \<and> finite_values (data out) = Some vs \<and> l2_norm vs = 1) \<and>
   wf_ndarray \<lparr>shape = [2], data = [0, 0 :: complex]\<rparr> \<and>
   plane_wave_renorm \<lparr>shape = [2], data = [0, 0]\<rparr> =
     Inr \<lparr>shape = [2], data = [NonFinite, NonFinite]\<rparr>"
proof -
  let ?f = "\<lparr>shape = [2, 1], data = [3, 4 * \<i>]\<rparr>"
  have w1: "wf_ndarray ?f"
    and w2: "wf_ndarray \<lparr>shape = [2], data = [0, 0 :: complex]\<rparr>"
    by (simp_all add: wf_ndarray_def)
  have nz: "\<exists>z \<in> set (data ?f). z \<noteq> 0"
    by simp
  have small: "float_safe_min \<le> 3" "float_safe_min \<le> 4"
    by (simp_all add: float_safe_min_def)
  have parts: "\<forall>z \<in> set (data ?f). (Re z = 0 \<or> float_safe_min \<le> \<bar>Re z\<bar>) \<and>
                                    (Im z = 0 \<or> float_safe_min \<le> \<bar>Im z\<bar>)"
    using small by simp
  have "(l2_norm (data ?f)) ^ 2 = 25"
    by (simp add: l2_norm_squared norm_mult)
  moreover have "25 \<le> float_max"
    by (simp add: float_max_def)
  ultimately have top: "(l2_norm (data ?f)) ^ 2 \<le> float_max"
    by simp
  from plane_wave_renorm_unit_norm [OF w1] nz parts top
  obtain out vs where "plane_wave_renorm ?f = Inr out" "shape out = shape ?f"
    "finite_values (data out) = Some vs" "l2_norm vs = 1"
    by blast
  then have "\<exists>out vs. plane_wave_renorm ?f = Inr out \<and>
      shape out = [2, 1] \<and> finite_values (data out) = Some vs \<and> l2_norm vs = 1"
    by auto
  moreover have "plane_wave_renorm \<lparr>shape = [2], data = [0, 0]\<rparr> =
     Inr \<lparr>shape = [2], data = [NonFinite, NonFinite]\<rparr>"
    using plane_wave_renorm_unit_norm [OF w2] by (simp add: numeral_2_eq_2)
  ultimately show ?thesis using w1 w2 by blast
qed

text \<open>
  C7 as stated (an error for an all-zero field) fails: on the zero field of shape
  \<open>(2,)\<close> the function returns normally, with two NaN entries.
\<close>

theorem plane_wave_renorm_zero_counterexample:
  "plane_wave_renorm \<lparr>shape = [2], data = [0, 0]\<rparr> =
     Inr \<lparr>shape = [2], data = [NonFinite, NonFinite]\<rparr>"
  by (simp add: plane_wave_renorm_def np_linalg_norm_complex_def np_dot_self_def fl_0
      np_reshape_def)

text \<open>
  Outside the range of the normal floats the unit norm is lost. A field whose squares
  overflow has an infinite norm and is mapped to zeros; a non-zero field whose squares
  underflow to \<open>0\<close> has the norm \<open>0\<close> and is mapped to non-finite entries.
\<close>

lemma fl_tiny:
  assumes "0 \<le> x" "x * 2 ^ 1074 < 1 / 2"
  shows "fl x = Finite 0"
proof -
  have "x = (x * 2 ^ 1074) / 2 ^ 1074" by simp
  also have "\<dots> < (1 / 2) / 2 ^ 1074"
    using assms(2) by (intro divide_strict_right_mono) simp_all
  also have "\<dots> \<le> float_min_normal"
    by (simp add: float_min_normal_def)
  finally have lt: "\<bar>x\<bar> < float_min_normal"
    using assms(1) by simp
  then have le: "\<not> float_max < \<bar>x\<bar>"
    using float_range_one by linarith
  have y: "0 \<le> x * 2 ^ 1074" using assms(1) by simp
  with assms(2) have "\<lfloor>x * 2 ^ 1074\<rfloor> = 0" by linarith
  then have "round_even (x * 2 ^ 1074) = 0"
    using assms(2) by (simp add: round_even_def)
  with lt le show ?thesis
    unfolding fl_def by (simp only: if_True if_False) simp
qed

lemma plane_wave_renorm_overflow:
  "plane_wave_renorm \<lparr>shape = [2], data = [of_real (10 ^ 200), of_real (10 ^ 200)]\<rparr> =
     Inr \<lparr>shape = [2], data = [Finite 0, Finite 0]\<rparr>"
proof -
  have "float_max < \<bar>(10 :: real) ^ 200 * 10 ^ 200\<bar>"
    by (simp add: float_max_def)
  then have "fl ((10 :: real) ^ 200 * 10 ^ 200) = NonFinite"
    by (rule fl_overflow)
  then have "np_linalg_norm_complex [of_real (10 ^ 200), of_real (10 ^ 200)] = NonFinite"
    by (simp add: np_linalg_norm_complex_def np_dot_self_def del: power_numeral of_real_power)
  then show ?thesis
    by (simp add: plane_wave_renorm_def np_reshape_def del: power_numeral of_real_power)
qed

lemma plane_wave_renorm_underflow:
  "plane_wave_renorm \<lparr>shape = [1], data = [of_real (1 / 10 ^ 200)]\<rparr> =
     Inr \<lparr>shape = [1], data = [NonFinite]\<rparr>"
proof -
  have "(1 / (10 :: real) ^ 200 * (1 / 10 ^ 200)) * 2 ^ 1074 < 1 / 2"
    by simp
  then have "fl (1 / (10 :: real) ^ 200 * (1 / 10 ^ 200)) = Finite 0"
    by (intro fl_tiny) simp_all
  then have "np_linalg_norm_complex [of_real (1 / 10 ^ 200)] = Finite 0"
    by (simp add: np_linalg_norm_complex_def np_dot_self_def fl_0
        del: power_numeral of_real_power of_real_divide)
  then show ?thesis
    by (simp add: plane_wave_renorm_def np_reshape_def del: power_numeral of_real_power of_real_divide)
qed

subsection \<open>Evaluating a plane wave\<close>

lemma plane_wave_grid_point:
  "\<exists>f. plane_wave [([1, 0], c)] = Inr f \<and>
       f \<lparr>shape = [1, 1, 2], data = [0, 0]\<rparr> = Inr \<lparr>shape = [1, 1], data = [c]\<rparr>"
  by (simp add: plane_wave_def space_function_def tensordot_def py_sum_def numeral_2_eq_2)

lemma plane_wave_batch_IndexError:
  "\<exists>f. plane_wave [([1, 0], c)] = Inr f \<and>
       f \<lparr>shape = [1, 2], data = [0, 0]\<rparr> = Inl IndexError"
  by (simp add: plane_wave_def space_function_def tensordot_def)

text \<open>
  C6: the function returned by \<open>plane_wave({(1,0): c})\<close>, applied to the vector
  \<open>r = (0, 0)\<close> (a one-dimensional array of shape \<open>(2,)\<close>), raises \<open>IndexError\<close>: the
  contraction asks for axis \<open>dim = 2\<close> of \<open>r\<close>, which a vector does not have. The lemmas
  above show that the same point presented as a \<open>1 \<times> 1\<close> grid of 2-vectors is evaluated
  to \<open>c\<close>, and that a batch of shape \<open>(1, 2)\<close> holding it is rejected like the vector.
\<close>

theorem plane_wave_vector_IndexError:
  "\<exists>f. plane_wave [([1, 0], c)] = Inr f \<and> f \<lparr>shape = [2], data = [0, 0]\<rparr> = Inl IndexError"
  by (simp add: plane_wave_def space_function_def tensordot_def)

end
